theory Spec2Isabelle
  imports Main "HOL-Library.Sublist"
begin

section \<open>IMAP connection: data model\<close>

text \<open>
  Shallow embedding of \<^verbatim>\<open>imap-core/lib/imap-connection.js\<close> (class \<^verbatim>\<open>IMAPConnection\<close>).
  Mutable object state is passed explicitly; values handed to collaborators that live
  outside the file (socket, write stream, logger, notifier, command assembler) are
  recorded in lists so that every effect of a method is visible in the returned state.
\<close>

subsection \<open>Update records and responses\<close>

text \<open>
  \<^verbatim>\<open>update.command\<close> is a string; the flush looks only for the three literals
  \<^verbatim>\<open>'EXISTS'\<close>, \<^verbatim>\<open>'EXPUNGE'\<close> and \<^verbatim>\<open>'FETCH'\<close>; every other string is \<open>OTHER\<close>.
\<close>

datatype command = EXISTS | EXPUNGE | FETCH | OTHER string

text \<open>
  An update record of the notifier. \<open>flags\<close> and \<open>ignore\<close> may be absent
  (\<^verbatim>\<open>undefined\<close>), which is \<open>None\<close>.
\<close>

record update =
  command :: command
  uid :: nat
  modseq :: nat
  flags :: "string list option"
  ignore :: "string option"

text \<open>
  Response attributes: an object \<^verbatim>\<open>{type, value}\<close> or a nested array.
\<close>

datatype attr = Node string string | Lst "attr list"

record response =
  tag :: string
  rcommand :: string
  attributes :: "attr list"

text \<open>
  The \<^verbatim>\<open>data\<close> argument that \<^verbatim>\<open>emitNotifications\<close> passes to \<^verbatim>\<open>formatResponse\<close>:
  \<^verbatim>\<open>{flags: update.flags, modseq: (condstoreEnabled && update.modseq) || false}\<close>.
  \<open>dmodseq = None\<close> is the value \<^verbatim>\<open>false\<close>. (The \<^verbatim>\<open>'query' in data\<close> branch of
  \<^verbatim>\<open>formatResponse\<close> serves the FETCH command handlers and is never reached from the
  notification path; it is left out.)
\<close>

record ndata =
  dflags :: "string list option"
  dmodseq :: "nat option"

subsection \<open>The selected mailbox\<close>

record selected_mailbox =
  mailbox :: string
  uidList :: "nat list"
  modifyIndex :: nat
  condstoreEnabled :: bool
  notifications :: "update list"

subsection \<open>Log entries\<close>

datatype logentry =
    LogPending nat
  | LogProcessing update
  | LogUIDS nat
  | LogExpunge int
  | LogNotificationError string
  | LogError string
  | LogConnectionEnd
  | LogConnectionClosed
  | LogConnectionTimeout
  | LogSend string

section \<open>JavaScript primitives\<close>

text \<open>\<^verbatim>\<open>Array.prototype.indexOf\<close>: the first index of the element, \<open>-1\<close> when absent.\<close>

fun indexOf :: "nat list \<Rightarrow> nat \<Rightarrow> int" where
  "indexOf [] x = - 1"
| "indexOf (y # ys) x =
     (if y = x then 0 else (let r = indexOf ys x in if r < 0 then - 1 else r + 1))"

text \<open>\<^verbatim>\<open>xs.splice(i, 1)\<close>: removes the element at index \<open>i\<close>, nothing when out of range.\<close>

definition splice1 :: "nat \<Rightarrow> 'a list \<Rightarrow> 'a list" where
  "splice1 i xs = take i xs @ drop (Suc i) xs"

text \<open>The decimal digits of a natural number.\<close>

definition digit :: "nat \<Rightarrow> char" where
  "digit d = (''0123456789'' ! d)"

fun decimal :: "nat \<Rightarrow> string" where
  "decimal n = (if n < 10 then [digit n] else decimal (n div 10) @ [digit (n mod 10)])"

declare decimal.simps [simp del]

text \<open>
  \<^verbatim>\<open>String(n)\<close> for a non-negative integer. Uids, sequence numbers and modseq values are
  JavaScript numbers, read here as naturals. Below \<open>2^53\<close> every natural is a number and
  \<^verbatim>\<open>String\<close> prints its decimal digits. From \<open>2^53\<close> on a number is a rounded double and
  \<^verbatim>\<open>String\<close> prints the shortest digits that identify it (exponent notation from
  \<open>10^21\<close>); that text is not modelled, so nothing is said about it.
\<close>

definition toString :: "nat \<Rightarrow> string" where
  "toString n = (if n < 9007199254740992 then decimal n else undefined)"

text \<open>
  \<^verbatim>\<open>String.prototype.toUpperCase\<close> on ASCII letters; every other character is left as
  it is.
\<close>

definition toUpperCase :: "string \<Rightarrow> string" where
  "toUpperCase s =
     map (\<lambda>c. if 97 \<le> (of_char c :: nat) \<and> (of_char c :: nat) \<le> 122
               then char_of ((of_char c :: nat) - 32) else c) s"

text \<open>
  \<^verbatim>\<open>command.toUpperCase()\<close> on a command: a string that upper-cases to one of the three
  literals is that command from then on.
\<close>

fun upperCommand :: "command \<Rightarrow> command" where
  "upperCommand EXISTS = EXISTS"
| "upperCommand EXPUNGE = EXPUNGE"
| "upperCommand FETCH = FETCH"
| "upperCommand (OTHER s) =
     (if toUpperCase s = ''EXISTS'' then EXISTS
      else if toUpperCase s = ''EXPUNGE'' then EXPUNGE
      else if toUpperCase s = ''FETCH'' then FETCH
      else OTHER (toUpperCase s))"

text \<open>The string of a command.\<close>

fun commandName :: "command \<Rightarrow> string" where
  "commandName EXISTS = ''EXISTS''"
| "commandName EXPUNGE = ''EXPUNGE''"
| "commandName FETCH = ''FETCH''"
| "commandName (OTHER s) = s"

section \<open>formatResponse\<close>

text \<open>
  The attributes built from a notification \<^verbatim>\<open>data\<close> object: the keys \<^verbatim>\<open>flags\<close> and
  \<^verbatim>\<open>modseq\<close> in insertion order, a key with a falsy value skipped (an absent flags array,
  \<^verbatim>\<open>false\<close> or \<open>0\<close> for modseq).
\<close>

definition notificationAttrs :: "ndata \<Rightarrow> attr list" where
  "notificationAttrs d =
     (case dflags d of
        None \<Rightarrow> []
      | Some fs \<Rightarrow> [Node ''ATOM'' ''FLAGS'', Lst (map (Node ''ATOM'') fs)])
     @
     (case dmodseq d of
        None \<Rightarrow> []
      | Some m \<Rightarrow>
          if m = 0 then []
          else [Node ''ATOM'' ''MODSEQ'', Lst [Node ''ATOM'' (toString m)]])"

definition mkResponse :: "int \<Rightarrow> command \<Rightarrow> ndata option \<Rightarrow> response" where
  "mkResponse seq cmd data =
     \<lparr> tag = ''*'',
       rcommand = toString (nat seq),
       attributes =
         Node ''atom'' (commandName cmd)
         # (case data of None \<Rightarrow> [] | Some d \<Rightarrow> [Lst (notificationAttrs d)]) \<rparr>"

text \<open>
  \<^verbatim>\<open>formatResponse(command, uid, data)\<close> reads and mutates \<^verbatim>\<open>this.selected.uidList\<close>;
  the result \<^verbatim>\<open>false\<close> is \<open>None\<close>. Its first statement upper-cases the command. (With
  nothing selected the method throws for EXISTS and returns \<^verbatim>\<open>false\<close> otherwise; that is
  part of \<open>fire\<close> below.)
\<close>

definition formatResponse ::
  "command \<Rightarrow> nat \<Rightarrow> ndata option \<Rightarrow> selected_mailbox \<Rightarrow> response option \<times> selected_mailbox"
where
  "formatResponse cmd0 u data s =
     (let cmd = upperCommand cmd0 in
      if cmd = EXISTS then
        (let s1 = s\<lparr>uidList := uidList s @ [u]\<rparr>
         in (Some (mkResponse (int (length (uidList s1))) cmd data), s1))
      else
        (let seq = indexOf (uidList s) u in
         if seq < 0 then (None, s)
         else
           (let seq1 = seq + 1;
                s1 = (if cmd = EXPUNGE
                      then s\<lparr>uidList := splice1 (nat (seq1 - 1)) (uidList s)\<rparr>
                      else s)
            in (Some (mkResponse seq1 cmd data), s1))))"


section \<open>The connection\<close>

subsection \<open>State\<close>

text \<open>
  A listener record created by \<^verbatim>\<open>updateNotificationListener\<close>. \<open>cleared\<close> is the closure
  variable \<^verbatim>\<open>cleared\<close>; the closure variable \<^verbatim>\<open>listenerData\<close> is \<^verbatim>\<open>false\<close> exactly
  when \<open>cleared\<close> holds (\<^verbatim>\<open>clear\<close> assigns both).
\<close>

record listener =
  lmailbox :: string
  lock :: bool
  cleared :: bool

text \<open>A frame handed to \<^verbatim>\<open>_onCommand\<close> by the stream parser.\<close>

record frame =
  payload :: string
  final :: bool

text \<open>A message of the notifier and an error object.\<close>

record message =
  action :: string
  mmailbox :: string

record jserror =
  processed :: bool
  code :: string
  emessage :: string

text \<open>
  The connection together with the parts of the server it touches. Listener records are
  objects shared between the connection and the notifier, so they live in a store
  (\<open>listeners\<close>, the index is the address) and \<^verbatim>\<open>this._listenerData\<close> is an address.
  \<open>connections\<close> is \<^verbatim>\<open>server.connections\<close>, a set of connections named by their id.
  \<open>sent\<close> lists what \<^verbatim>\<open>send\<close> wrote (the flag tells the deflate channel), \<open>written\<close> the
  responses composed by the write stream, \<open>requests\<close> the calls of \<^verbatim>\<open>notifier.getUpdates\<close>
  (listener address, mailbox, modify index), \<open>immediates\<close> the \<^verbatim>\<open>onNotifications\<close> calls
  scheduled with \<^verbatim>\<open>setImmediate\<close>, \<open>ended\<close> the commands completed by \<^verbatim>\<open>IMAPCommand.end\<close>,
  \<open>parserCallbacks\<close> how often \<^verbatim>\<open>_onCommand\<close> itself invoked the parser's callback. The
  source documents that callback as the one "to run once the command is processed":
  calling it hands the frame back to the stream parser as done, and the parser reads on.
\<close>

record conn =
  cid :: string
  state :: string
  selected :: "selected_mailbox option"
  idling :: bool
  upgrading :: bool
  currentCommand :: "frame list option"
  closing :: bool
  closed :: bool
  parser :: bool
  dataStream :: bool
  deflate :: bool
  inflate :: bool
  compression :: bool
  socketDestroyed :: bool
  socketWritable :: bool
  socketEnded :: nat
  sent :: "(bool \<times> string) list"
  written :: "response list"
  listenerData :: "nat option"
  listeners :: "listener list"
  registered :: "nat set"
  requests :: "(nat \<times> string option \<times> nat) list"
  connections :: "string set"
  logged :: "logentry list"
  onNotifications :: bool
  immediates :: "(string \<times> nat) list"
  ended :: "frame list list"
  parserCallbacks :: nat
  emitted :: "jserror list"

subsection \<open>Collaborators outside the file\<close>

text \<open>
  Modelled from the spec: the response composer (\<^verbatim>\<open>imap-composer.js\<close>, the class behind
  \<^verbatim>\<open>this.writeStream\<close>, is not among the sources). Given a response record it emits it;
  bytes reach the client in the order the composer received them. A write of \<^verbatim>\<open>false\<close>
  (what \<^verbatim>\<open>formatResponse\<close> returns for a uid it cannot locate) carries no record and
  emits nothing: "locate uid; if absent, drop".
\<close>

definition streamWrite :: "response option \<Rightarrow> response list \<Rightarrow> response list" where
  "streamWrite v out = (case v of None \<Rightarrow> out | Some r \<Rightarrow> out @ [r])"

text \<open>
  Node's \<^verbatim>\<open>socket.end()\<close>: the writable side is finished, \<^verbatim>\<open>socket.writable\<close> is false
  from then on.
\<close>

definition socketEnd :: "conn \<Rightarrow> conn" where
  "socketEnd c = c\<lparr>socketWritable := False, socketEnded := Suc (socketEnded c)\<rparr>"

text \<open>
  Modelled from the spec: the command assembler (\<^verbatim>\<open>imap-command.js\<close> is not among the
  sources). "Accepts frames in order; the first frame of a command creates a fresh command
  context"; a non-final frame is accumulated, "the final frame closes the context and
  yields a parsed Command Record to the controller".
\<close>

definition commandAppend :: "frame \<Rightarrow> frame list \<Rightarrow> frame list" where
  "commandAppend f cur = cur @ [f]"

definition endCommand :: "frame \<Rightarrow> frame list \<Rightarrow> conn \<Rightarrow> conn" where
  "endCommand f cur c = c\<lparr>ended := ended c @ [cur @ [f]]\<rparr>"

subsection \<open>send, close and the socket events\<close>

text \<open>
  \<^verbatim>\<open>send(payload)\<close>. With \<^verbatim>\<open>compression\<close> set and no \<^verbatim>\<open>_deflate\<close> stream the call
  \<^verbatim>\<open>this._deflate.write\<close> throws a TypeError, which is \<open>None\<close>.
\<close>

definition send :: "string \<Rightarrow> conn \<Rightarrow> conn option" where
  "send p c =
     (if socketWritable c then
        (if compression c \<and> \<not> deflate c then None
         else Some (c\<lparr>sent := sent c @ [(compression c, p @ [CHR 0x0D, CHR 0x0A])],
                     logged := logged c @ [LogSend p]\<rparr>))
      else Some c)"

definition close :: "conn \<Rightarrow> conn" where
  "close c =
     (let c1 = (if \<not> socketDestroyed c \<and> socketWritable c then socketEnd c else c)
      in c1\<lparr>connections := connections c1 - {cid c1}, closing := True\<rparr>)"

text \<open>
  \<^verbatim>\<open>listenerData.clear()\<close> for the listener at address \<open>a\<close>. Once cleared, the closure's
  \<^verbatim>\<open>listenerData\<close> is \<^verbatim>\<open>false\<close>: \<^verbatim>\<open>removeListener\<close> is then called with an undefined
  callback and removes nothing, and \<^verbatim>\<open>false === this._listenerData\<close> can only confirm
  an absent listener.
\<close>

definition clear :: "nat \<Rightarrow> conn \<Rightarrow> conn" where
  "clear a c =
     (if a < length (listeners c) then
        (let l = listeners c ! a in
         if cleared l then c
         else c\<lparr>registered := registered c - {a},
                listenerData := (if listenerData c = Some a then None else listenerData c),
                listeners := (listeners c)[a := l\<lparr>cleared := True\<rparr>]\<rparr>)
      else c)"

definition onClose :: "conn \<Rightarrow> conn" where
  "onClose c =
     (if closed c then c
      else
        (let c1 = c\<lparr>parser := False, state := ''Closed''\<rparr>;
             c2 = (if dataStream c1 then c1\<lparr>dataStream := False\<rparr> else c1);
             c3 = (if deflate c2 then c2\<lparr>deflate := False\<rparr> else c2);
             c4 = (if inflate c3 then c3\<lparr>inflate := False\<rparr> else c3);
             c5 = (case listenerData c4 of None \<Rightarrow> c4 | Some a \<Rightarrow> clear a c4);
             c6 = c5\<lparr>connections := connections c5 - {cid c5}\<rparr>
         in if closed c6 then c6
            else c6\<lparr>closed := True, closing := False,
                    logged := logged c6 @ [LogConnectionClosed]\<rparr>))"

definition onEnd :: "conn \<Rightarrow> conn" where
  "onEnd c =
     (let c1 = c\<lparr>logged := logged c @ [LogConnectionEnd]\<rparr>
      in if \<not> closed c1 then onClose c1 else c1)"

definition onError :: "jserror \<Rightarrow> conn \<Rightarrow> conn" where
  "onError err c =
     (if processed err then c
      else if code err = ''ECONNRESET'' \<or> code err = ''EPIPE'' then close c
      else c\<lparr>logged := logged c @ [LogError (emessage err)],
             emitted := emitted c @ [err]\<rparr>)"

definition onTimeout :: "conn \<Rightarrow> conn option" where
  "onTimeout c =
     (let c1 = c\<lparr>logged := logged c @ [LogConnectionTimeout]\<rparr>
      in if idling c1 then Some c1
         else (case send ''* BYE Idle timeout, closing connection'' c1 of
                 None \<Rightarrow> None
               | Some c2 \<Rightarrow> Some (close c2)))"

subsection \<open>Command dispatch\<close>

definition onCommand :: "frame \<Rightarrow> conn \<Rightarrow> conn" where
  "onCommand f c =
     (if upgrading c then c\<lparr>parserCallbacks := Suc (parserCallbacks c)\<rparr>
      else
        (let cur = (case currentCommand c of None \<Rightarrow> [] | Some fs \<Rightarrow> fs)
         in if \<not> final f then c\<lparr>currentCommand := Some (commandAppend f cur)\<rparr>
            else endCommand f cur (c\<lparr>currentCommand := None\<rparr>)))"


section \<open>Notifications\<close>

subsection \<open>The flush: emitNotifications\<close>

text \<open>
  The first loop and \<^verbatim>\<open>removed.forEach\<close>: the uids of EXISTS records, of EXPUNGE records,
  and the uids that are in both.
\<close>

definition addedUids :: "update list \<Rightarrow> nat set" where
  "addedUids q = set (map uid (filter (\<lambda>u. command u = EXISTS) q))"

definition removedUids :: "update list \<Rightarrow> nat set" where
  "removedUids q = set (map uid (filter (\<lambda>u. command u = EXPUNGE) q))"

definition skipUids :: "update list \<Rightarrow> nat set" where
  "skipUids q =
     set (filter (\<lambda>x. x \<in> addedUids q) (map uid (filter (\<lambda>u. command u = EXPUNGE) q)))"

text \<open>
  The second loop runs from the last index down to 0 and splices FETCH records out of the
  queue. \<open>dropFetches\<close> takes the queue in that visiting order (last record first) with
  the set \<^verbatim>\<open>fetches\<close> built so far and returns the records that stay, in the same order.
\<close>

fun dropFetches :: "nat set \<Rightarrow> nat set \<Rightarrow> nat set \<Rightarrow> update list \<Rightarrow> update list" where
  "dropFetches added removed fetches [] = []"
| "dropFetches added removed fetches (u # us) =
     (if command u = FETCH then
        (if uid u \<in> fetches \<or> uid u \<in> added \<or> uid u \<in> removed
         then dropFetches added removed fetches us
         else u # dropFetches added removed (insert (uid u) fetches) us)
      else u # dropFetches added removed fetches us)"

definition filterFetches :: "update list \<Rightarrow> update list" where
  "filterFetches q = rev (dropFetches (addedUids q) (removedUids q) {} (rev q))"

text \<open>
  The state of the third loop: the selected mailbox, the write stream, the log, and the
  locals \<^verbatim>\<open>changed\<close> and \<^verbatim>\<open>existsResponse\<close> (\<open>None\<close> while unset or \<^verbatim>\<open>false\<close>).
\<close>

record flush =
  sel :: selected_mailbox
  out :: "response list"
  logs :: "logentry list"
  changed :: bool
  existsResponse :: "response option"

text \<open>
  The \<^verbatim>\<open>data\<close> object of the FETCH case:
  \<^verbatim>\<open>{flags: update.flags, modseq: (this.selected.condstoreEnabled && update.modseq) || false}\<close>.
\<close>

definition fetchData :: "bool \<Rightarrow> update \<Rightarrow> ndata" where
  "fetchData cs u =
     \<lparr>dflags = flags u,
      dmodseq = (if cs \<and> modseq u \<noteq> 0 then Some (modseq u) else None)\<rparr>"

text \<open>One iteration of the third loop, for the session id \<open>sid\<close> and the set \<^verbatim>\<open>skip\<close>.\<close>

definition processUpdate :: "string \<Rightarrow> nat set \<Rightarrow> flush \<Rightarrow> update \<Rightarrow> flush" where
  "processUpdate sid skip w u =
     (if uid u \<in> skip then w
      else
        (let w1 = (if modseq u > modifyIndex (sel w)
                   then w\<lparr>sel := (sel w)\<lparr>modifyIndex := modseq u\<rparr>\<rparr> else w);
             w2 = w1\<lparr>logs := logs w1 @ [LogProcessing u]\<rparr>
         in if ignore u = Some sid then w2
            else
              (let w3 = w2\<lparr>logs := logs w2 @ [LogUIDS (length (uidList (sel w2)))]\<rparr>
               in case command u of
                    EXISTS \<Rightarrow>
                      (let (r, s1) = formatResponse EXISTS (uid u) None (sel w3)
                       in w3\<lparr>sel := s1, existsResponse := r, changed := False\<rparr>)
                  | EXPUNGE \<Rightarrow>
                      (let seq = indexOf (uidList (sel w3)) (uid u);
                           w4 = w3\<lparr>logs := logs w3 @ [LogExpunge seq]\<rparr>
                       in if seq \<ge> 0 then
                            (let (r, s1) = formatResponse EXPUNGE (uid u) None (sel w4)
                             in w4\<lparr>sel := s1, out := streamWrite r (out w4), changed := True\<rparr>)
                          else w4)
                  | FETCH \<Rightarrow>
                      (let d = fetchData (condstoreEnabled (sel w3)) u;
                           (r, s1) = formatResponse FETCH (uid u) (Some d) (sel w3)
                       in w3\<lparr>sel := s1, out := streamWrite r (out w3)\<rparr>)
                  | OTHER x \<Rightarrow> w3)))"

text \<open>The synthesized response \<^verbatim>\<open>* N EXISTS\<close>, built without \<^verbatim>\<open>formatResponse\<close>.\<close>

definition existsLiteral :: "nat \<Rightarrow> response" where
  "existsLiteral n =
     \<lparr>tag = ''*'', rcommand = toString n, attributes = [Node ''atom'' ''EXISTS'']\<rparr>"

text \<open>The two writes after the loop.\<close>

definition finishFlush :: "flush \<Rightarrow> flush" where
  "finishFlush w =
     (let w1 = (if existsResponse w \<noteq> None \<and> \<not> changed w
                then w\<lparr>out := streamWrite (existsResponse w) (out w), existsResponse := None\<rparr>
                else w)
      in if changed w1
         then w1\<lparr>out := streamWrite (Some (existsLiteral (length (uidList (sel w1))))) (out w1)\<rparr>
         else w1)"

definition emitNotifications :: "conn \<Rightarrow> conn" where
  "emitNotifications c =
     (case selected c of
        None \<Rightarrow> c
      | Some s \<Rightarrow>
          if state c \<noteq> ''Selected'' \<or> notifications s = [] then c
          else
            (let q = notifications s;
                 skip = skipUids q;
                 q1 = filterFetches q;
                 w0 = \<lparr>sel = s\<lparr>notifications := q1\<rparr>, out = written c,
                       logs = logged c @ [LogPending (length q)],
                       changed = False, existsResponse = None\<rparr>;
                 w = finishFlush (foldl (processUpdate (cid c) skip) w0 q1);
                 s1 = (sel w)\<lparr>notifications := []\<rparr>
             in c\<lparr>selected := Some s1, written := out w, logged := logs w,
                   immediates := (if onNotifications c
                                  then immediates c @ [(mailbox s1, modifyIndex s1)]
                                  else immediates c)\<rparr>))"

text \<open>
  The state of the flush when the third loop ends, for a connection whose selected
  mailbox is \<open>s\<close>: the fold inside \<open>emitNotifications\<close>, named for the statements below.
\<close>

definition walked :: "conn \<Rightarrow> selected_mailbox \<Rightarrow> flush" where
  "walked c s =
     foldl (processUpdate (cid c) (skipUids (notifications s)))
       \<lparr>sel = s\<lparr>notifications := filterFetches (notifications s)\<rparr>, out = written c,
        logs = logged c @ [LogPending (length (notifications s))],
        changed = False, existsResponse = None\<rparr>
       (filterFetches (notifications s))"

text \<open>
  What the walk leaves behind apart from the log and the fields it never reads: the uid
  list, the modify index, the CONDSTORE flag, the responses written, and the two locals.
\<close>

definition view :: "flush \<Rightarrow> nat list \<times> nat \<times> bool \<times> response list \<times> bool \<times> response option" where
  "view w = (uidList (sel w), modifyIndex (sel w), condstoreEnabled (sel w), out w,
             changed w, existsResponse w)"

subsection \<open>The listener\<close>

definition updateNotificationListener :: "conn \<Rightarrow> conn" where
  "updateNotificationListener c =
     (let same = (case (listenerData c, selected c) of
                    (Some a, Some s) \<Rightarrow>
                       a < length (listeners c) \<and> lmailbox (listeners c ! a) = mailbox s
                  | _ \<Rightarrow> False)
      in if listenerData c \<noteq> None \<and> same then c
         else
           (let c1 = (case listenerData c of None \<Rightarrow> c | Some a \<Rightarrow> clear a c)
            in case selected c1 of
                 None \<Rightarrow> c1\<lparr>listenerData := None\<rparr>
               | Some s \<Rightarrow>
                   (let a1 = length (listeners c1)
                    in c1\<lparr>listeners := listeners c1
                                        @ [\<lparr>lmailbox = mailbox s, lock = False, cleared = False\<rparr>],
                          listenerData := Some a1,
                          registered := insert a1 (registered c1)\<rparr>)))"

text \<open>
  The listener's \<^verbatim>\<open>callback(message)\<close> up to the call of \<^verbatim>\<open>notifier.getUpdates\<close>, for
  the listener at address \<open>a\<close>. \<open>None\<close> is the TypeError of \<^verbatim>\<open>send\<close>.
\<close>

definition callback :: "nat \<Rightarrow> message option \<Rightarrow> conn \<Rightarrow> conn option" where
  "callback a m c =
     (if a \<ge> length (listeners c) then Some c
      else if (case (m, selected c) of
                 (Some msg, Some s) \<Rightarrow> action msg = ''DELETE'' \<and> mmailbox msg = mailbox s
               | _ \<Rightarrow> False)
      then (case send ''* BYE Selected mailbox was deleted, have to disconnect'' c of
              None \<Rightarrow> None
            | Some c1 \<Rightarrow> Some (close c1))
      else
        (let l = listeners c ! a in
         if \<not> cleared l \<and> lock l then Some c
         else if cleared l then Some c
         else if state c \<noteq> ''Selected'' \<or> selected c = None then Some (clear a c)
         else
           Some (c\<lparr>listeners := (listeners c)[a := l\<lparr>lock := True\<rparr>],
                   requests := requests c
                     @ [(a,
                         (case listenerData c of
                            None \<Rightarrow> None
                          | Some b \<Rightarrow> if b < length (listeners c)
                                      then Some (lmailbox (listeners c ! b)) else None),
                         (case selected c of None \<Rightarrow> 0 | Some s \<Rightarrow> modifyIndex s))]\<rparr>)))"

text \<open>
  The continuation passed to \<^verbatim>\<open>getUpdates\<close>, called with \<^verbatim>\<open>(err, updates)\<close>; an absent
  \<^verbatim>\<open>updates\<close> is the empty list.
\<close>

definition getUpdatesCallback :: "nat \<Rightarrow> jserror option \<Rightarrow> update list \<Rightarrow> conn \<Rightarrow> conn" where
  "getUpdatesCallback a err updates c =
     (if a \<ge> length (listeners c) then c
      else if cleared (listeners c ! a) then c
      else
        (let c1 = c\<lparr>listeners := (listeners c)[a := (listeners c ! a)\<lparr>lock := False\<rparr>]\<rparr>
         in case err of
              Some e \<Rightarrow> c1\<lparr>logged := logged c1 @ [LogNotificationError (emessage e)]\<rparr>
            | None \<Rightarrow>
                (case selected c1 of
                   None \<Rightarrow> clear a c1
                 | Some s \<Rightarrow>
                     if state c1 \<noteq> ''Selected'' then clear a c1
                     else if updates = [] then c1
                     else
                       (let s1 = (if modseq (last updates) > modifyIndex s
                                  then s\<lparr>modifyIndex := modseq (last updates)\<rparr> else s);
                            s2 = s1\<lparr>notifications := notifications s1 @ updates\<rparr>;
                            c2 = c1\<lparr>selected := Some s2\<rparr>
                        in if idling c2 then emitNotifications c2 else c2))))"


subsection \<open>Executions\<close>

text \<open>
  The entry points of the class as events. \<open>fire\<close> runs one of them; \<open>None\<close> is a thrown
  TypeError: \<^verbatim>\<open>send\<close> on a missing deflate stream, or \<^verbatim>\<open>formatResponse\<close> for EXISTS with
  nothing selected (\<^verbatim>\<open>this.selected.uidList.push\<close>; for the other commands
  \<^verbatim>\<open>(this.selected.uidList || []).indexOf(uid)\<close> is \<open>-1\<close> and the method returns
  \<^verbatim>\<open>false\<close>). \<open>run\<close> is an execution: the events in order, stopping at the first throw.
\<close>

datatype event =
    Close
  | OnClose
  | OnEnd
  | OnError jserror
  | OnTimeout
  | OnCommand frame
  | UpdateNotificationListener
  | Callback nat "message option"
  | GetUpdatesCallback nat "jserror option" "update list"
  | EmitNotifications
  | FormatResponse command nat "ndata option"

fun fire :: "event \<Rightarrow> conn \<Rightarrow> conn option" where
  "fire Close c = Some (close c)"
| "fire OnClose c = Some (onClose c)"
| "fire OnEnd c = Some (onEnd c)"
| "fire (OnError e) c = Some (onError e c)"
| "fire OnTimeout c = onTimeout c"
| "fire (OnCommand f) c = Some (onCommand f c)"
| "fire UpdateNotificationListener c = Some (updateNotificationListener c)"
| "fire (Callback a m) c = callback a m c"
| "fire (GetUpdatesCallback a err updates) c = Some (getUpdatesCallback a err updates c)"
| "fire EmitNotifications c = Some (emitNotifications c)"
| "fire (FormatResponse k u d) c =
     (case selected c of
        None \<Rightarrow> (if upperCommand k = EXISTS then None else Some c)
      | Some s \<Rightarrow> Some (c\<lparr>selected := Some (snd (formatResponse k u d s))\<rparr>))"

fun run :: "event list \<Rightarrow> conn \<Rightarrow> conn option" where
  "run [] c = Some c"
| "run (e # es) c = (case fire e c of None \<Rightarrow> None | Some c1 \<Rightarrow> run es c1)"

subsection \<open>FETCH coalescing as the specification words it\<close>

text \<open>
  Follows the spec's words, for comparison with \<open>filterFetches\<close>: "keep only the last
  FETCH per UID; drop FETCHes for UIDs in added or removed". The queue is read in arrival
  order; a FETCH record goes when its uid is in \<open>added\<close> or \<open>removed\<close> or a later FETCH
  record has the same uid.
\<close>

fun lastFetches :: "nat set \<Rightarrow> nat set \<Rightarrow> update list \<Rightarrow> update list" where
  "lastFetches added removed [] = []"
| "lastFetches added removed (u # us) =
     (if command u = FETCH
         \<and> (uid u \<in> added \<or> uid u \<in> removed
            \<or> (\<exists>v \<in> set us. command v = FETCH \<and> uid v = uid u))
      then lastFetches added removed us
      else u # lastFetches added removed us)"

text \<open>
  Whether a response is an untagged FETCH: its first attribute is the atom \<open>FETCH\<close>.
\<close>

definition isFetchResponse :: "response \<Rightarrow> bool" where
  "isFetchResponse r =
     (case attributes r of Node t v # rest \<Rightarrow> t = ''atom'' \<and> v = ''FETCH'' | _ \<Rightarrow> False)"

subsection \<open>Example data\<close>

definition exampleUpdate :: "command \<Rightarrow> nat \<Rightarrow> nat \<Rightarrow> update" where
  "exampleUpdate k u m = \<lparr>command = k, uid = u, modseq = m, flags = None, ignore = None\<rparr>"

text \<open>
  A connection with session id \<open>S\<close> in state \<open>Selected\<close>, idling, with the given uid list
  and pending queue.
\<close>

definition exampleConn :: "nat list \<Rightarrow> update list \<Rightarrow> conn" where
  "exampleConn us q =
     \<lparr>cid = ''S'', state = ''Selected'',
      selected = Some \<lparr>mailbox = ''INBOX'', uidList = us, modifyIndex = 0,
                       condstoreEnabled = False, notifications = q\<rparr>,
      idling = True, upgrading = False, currentCommand = None, closing = False,
      closed = False, parser = True, dataStream = False, deflate = False, inflate = False,
      compression = False, socketDestroyed = False, socketWritable = True, socketEnded = 0,
      sent = [], written = [], listenerData = None, listeners = [], registered = {},
      requests = [], connections = {''S''}, logged = [], onNotifications = False,
      immediates = [], ended = [], parserCallbacks = 0, emitted = []\<rparr>"

text \<open>A FETCH record with flags, as in the spec's coalescing scenario.\<close>

definition exampleFetch :: "nat \<Rightarrow> nat \<Rightarrow> string list \<Rightarrow> string option \<Rightarrow> update" where
  "exampleFetch u m fs ig = \<lparr>command = FETCH, uid = u, modseq = m, flags = Some fs, ignore = ig\<rparr>"

text \<open>An error object as \<^verbatim>\<open>getUpdates\<close> may pass it.\<close>

definition exampleError :: jserror where
  "exampleError = \<lparr>processed = False, code = ''ETIMEOUT'', emessage = ''store unavailable''\<rparr>"

text \<open>
  The example connection after it subscribed, asked for updates and was closed while the
  request was in flight: the listener is cleared, its lock still held.
\<close>

definition clearedInFlight :: conn where
  "clearedInFlight =
     (exampleConn [10] [])
       \<lparr>state := ''Closed'', closed := True, parser := False,
        listeners := [\<lparr>lmailbox = ''INBOX'', lock = True, cleared = True\<rparr>],
        requests := [(0, Some ''INBOX'', 0)], connections := {},
        logged := [LogConnectionClosed]\<rparr>"

text \<open>
  The example connection, not idling, with a registered listener whose request for
  updates is in flight.
\<close>

definition listeningConn :: conn where
  "listeningConn =
     (exampleConn [10] [])
       \<lparr>idling := False, listenerData := Some 0,
        listeners := [\<lparr>lmailbox = ''INBOX'', lock = True, cleared = False\<rparr>],
        registered := {0}, requests := [(0, Some ''INBOX'', 0)]\<rparr>"

section \<open>Properties\<close>

subsection \<open>indexOf and formatResponse\<close>


lemma indexOf_ge: "- 1 \<le> indexOf xs x"
  by (induction xs) (auto simp: Let_def)

lemma indexOf_absent: "x \<notin> set xs \<Longrightarrow> indexOf xs x = - 1"
  by (induction xs) (auto simp: Let_def)

lemma indexOf_present: "x \<in> set xs \<Longrightarrow> 0 \<le> indexOf xs x \<and> indexOf xs x < int (length xs)"
  by (induction xs) (auto simp: Let_def)

lemma indexOf_neg_iff: "indexOf xs x < 0 \<longleftrightarrow> x \<notin> set xs"
  using indexOf_absent [of x xs] indexOf_present [of x xs] by auto

lemma indexOf_nth: "x \<in> set xs \<Longrightarrow> xs ! nat (indexOf xs x) = x"
proof (induction xs)
  case Nil
  then show ?case by simp
next
  case (Cons y ys)
  show ?case
  proof (cases "y = x")
    case True
    then show ?thesis by simp
  next
    case False
    with Cons.prems have in_ys: "x \<in> set ys" by simp
    from indexOf_present [OF in_ys] have "0 \<le> indexOf ys x" by simp
    then have "nat (indexOf ys x + 1) = Suc (nat (indexOf ys x))" by simp
    with False in_ys Cons.IH indexOf_present [OF in_ys] show ?thesis
      by (simp add: Let_def)
  qed
qed

lemma indexOf_append: "x \<in> set xs \<Longrightarrow> indexOf (xs @ ys) x = indexOf xs x"
  by (induction xs) (auto simp: Let_def)

lemma formatResponse_EXISTS:
  "formatResponse EXISTS u d s =
     (Some (mkResponse (int (length (uidList s)) + 1) EXISTS d), s\<lparr>uidList := uidList s @ [u]\<rparr>)"
  by (simp add: formatResponse_def Let_def add.commute)

lemma formatResponse_absent:
  "upperCommand cmd \<noteq> EXISTS \<Longrightarrow> u \<notin> set (uidList s) \<Longrightarrow>
   formatResponse cmd u d s = (None, s)"
  by (simp add: formatResponse_def Let_def indexOf_absent)

lemma formatResponse_EXPUNGE:
  "u \<in> set (uidList s) \<Longrightarrow>
   formatResponse EXPUNGE u d s =
     (Some (mkResponse (indexOf (uidList s) u + 1) EXPUNGE d),
      s\<lparr>uidList := splice1 (nat (indexOf (uidList s) u)) (uidList s)\<rparr>)"
  by (simp add: formatResponse_def Let_def indexOf_neg_iff)

lemma formatResponse_FETCH:
  "u \<in> set (uidList s) \<Longrightarrow>
   formatResponse FETCH u d s = (Some (mkResponse (indexOf (uidList s) u + 1) FETCH d), s)"
  by (simp add: formatResponse_def Let_def indexOf_neg_iff)

lemma mkResponse_EXISTS: "mkResponse (int n) EXISTS None = existsLiteral n"
  by (simp add: mkResponse_def existsLiteral_def)

subsection \<open>One iteration of the walk, case by case\<close>

lemma processUpdate_skip: "uid u \<in> skip \<Longrightarrow> processUpdate sid skip w u = w"
  by (simp add: processUpdate_def)


lemma processUpdate_ignored:
  "uid u \<notin> skip \<Longrightarrow> ignore u = Some sid \<Longrightarrow>
   processUpdate sid skip w u =
     w\<lparr>sel := (sel w)\<lparr>modifyIndex := max (modifyIndex (sel w)) (modseq u)\<rparr>,
       logs := logs w @ [LogProcessing u]\<rparr>"
  by (simp add: processUpdate_def Let_def max_def)

lemma processUpdate_EXISTS:
  "uid u \<notin> skip \<Longrightarrow> ignore u \<noteq> Some sid \<Longrightarrow> command u = EXISTS \<Longrightarrow>
   processUpdate sid skip w u =
     w\<lparr>sel := (sel w)\<lparr>modifyIndex := max (modifyIndex (sel w)) (modseq u),
                      uidList := uidList (sel w) @ [uid u]\<rparr>,
       logs := logs w @ [LogProcessing u, LogUIDS (length (uidList (sel w)))],
       existsResponse := Some (existsLiteral (Suc (length (uidList (sel w))))),
       changed := False\<rparr>"
  by (simp add: processUpdate_def Let_def max_def formatResponse_def mkResponse_def existsLiteral_def)


lemma processUpdate_EXPUNGE_absent:
  "uid u \<notin> skip \<Longrightarrow> ignore u \<noteq> Some sid \<Longrightarrow> command u = EXPUNGE \<Longrightarrow>
   uid u \<notin> set (uidList (sel w)) \<Longrightarrow>
   processUpdate sid skip w u =
     w\<lparr>sel := (sel w)\<lparr>modifyIndex := max (modifyIndex (sel w)) (modseq u)\<rparr>,
       logs := logs w @ [LogProcessing u, LogUIDS (length (uidList (sel w))), LogExpunge (- 1)]\<rparr>"
  by (simp add: processUpdate_def Let_def max_def indexOf_absent)

lemma processUpdate_EXPUNGE_present:
  "uid u \<notin> skip \<Longrightarrow> ignore u \<noteq> Some sid \<Longrightarrow> command u = EXPUNGE \<Longrightarrow>
   uid u \<in> set (uidList (sel w)) \<Longrightarrow>
   processUpdate sid skip w u =
     w\<lparr>sel := (sel w)\<lparr>modifyIndex := max (modifyIndex (sel w)) (modseq u),
                      uidList := splice1 (nat (indexOf (uidList (sel w)) (uid u))) (uidList (sel w))\<rparr>,
       logs := logs w @ [LogProcessing u, LogUIDS (length (uidList (sel w))),
                         LogExpunge (indexOf (uidList (sel w)) (uid u))],
       out := out w @ [mkResponse (indexOf (uidList (sel w)) (uid u) + 1) EXPUNGE None],
       changed := True\<rparr>"
  using indexOf_present [of "uid u" "uidList (sel w)"]
  by (simp add: processUpdate_def Let_def max_def formatResponse_def streamWrite_def)

lemma processUpdate_FETCH_absent:
  "uid u \<notin> skip \<Longrightarrow> ignore u \<noteq> Some sid \<Longrightarrow> command u = FETCH \<Longrightarrow>
   uid u \<notin> set (uidList (sel w)) \<Longrightarrow>
   processUpdate sid skip w u =
     w\<lparr>sel := (sel w)\<lparr>modifyIndex := max (modifyIndex (sel w)) (modseq u)\<rparr>,
       logs := logs w @ [LogProcessing u, LogUIDS (length (uidList (sel w)))]\<rparr>"
  by (simp add: processUpdate_def Let_def max_def formatResponse_def indexOf_absent streamWrite_def)


lemma processUpdate_FETCH_present:
  "uid u \<notin> skip \<Longrightarrow> ignore u \<noteq> Some sid \<Longrightarrow> command u = FETCH \<Longrightarrow>
   uid u \<in> set (uidList (sel w)) \<Longrightarrow>
   processUpdate sid skip w u =
     w\<lparr>sel := (sel w)\<lparr>modifyIndex := max (modifyIndex (sel w)) (modseq u)\<rparr>,
       logs := logs w @ [LogProcessing u, LogUIDS (length (uidList (sel w)))],
       out := out w @ [mkResponse (indexOf (uidList (sel w)) (uid u) + 1) FETCH
                         (Some (fetchData (condstoreEnabled (sel w)) u))]\<rparr>"
  using indexOf_present [of "uid u" "uidList (sel w)"]
  by (simp add: processUpdate_def Let_def max_def formatResponse_def streamWrite_def)

lemma processUpdate_OTHER:
  "uid u \<notin> skip \<Longrightarrow> ignore u \<noteq> Some sid \<Longrightarrow> command u = OTHER x \<Longrightarrow>
   processUpdate sid skip w u =
     w\<lparr>sel := (sel w)\<lparr>modifyIndex := max (modifyIndex (sel w)) (modseq u)\<rparr>,
       logs := logs w @ [LogProcessing u, LogUIDS (length (uidList (sel w)))]\<rparr>"
  by (simp add: processUpdate_def Let_def max_def)

subsection \<open>Evaluating the flush on a concrete queue\<close>

lemma addedUids_Nil: "addedUids [] = {}"
  by (simp add: addedUids_def)

lemma addedUids_Cons:
  "addedUids (u # q) = (if command u = EXISTS then insert (uid u) (addedUids q) else addedUids q)"
  by (simp add: addedUids_def)

lemma removedUids_Nil: "removedUids [] = {}"
  by (simp add: removedUids_def)

lemma removedUids_Cons:
  "removedUids (u # q)
     = (if command u = EXPUNGE then insert (uid u) (removedUids q) else removedUids q)"
  by (simp add: removedUids_def)

lemma skipUids_Int: "skipUids q = removedUids q \<inter> addedUids q"
  by (auto simp: skipUids_def removedUids_def)

lemmas flush_eval =
  addedUids_Nil addedUids_Cons removedUids_Nil removedUids_Cons skipUids_Int
  filterFetches_def emitNotifications_def processUpdate_def finishFlush_def
  formatResponse_def mkResponse_def existsLiteral_def streamWrite_def splice1_def
  fetchData_def notificationAttrs_def Let_def

subsection \<open>Early return of the flush\<close>

text \<open>
  Claim C10. \<^verbatim>\<open>emitNotifications\<close> is a complete no-op when the session state is not
  \<open>Selected\<close>, when no mailbox is selected, or when the pending queue is empty: the
  connection it returns is the connection it was given (nothing written, uid list, modify
  index and queue unchanged, nothing logged or scheduled).
\<close>

theorem emitNotifications_noop:
  assumes "state c \<noteq> ''Selected'' \<or> selected c = None
           \<or> (\<exists>s. selected c = Some s \<and> notifications s = [])"
  shows "emitNotifications c = c"
  using assms by (auto simp: emitNotifications_def split: option.splits)

theorem emitNotifications_noop_witness:
  "emitNotifications (exampleConn [10, 11] []) = exampleConn [10, 11] []
   \<and> emitNotifications ((exampleConn [10] [exampleUpdate EXISTS 11 1])\<lparr>state := ''Authenticated''\<rparr>)
       = (exampleConn [10] [exampleUpdate EXISTS 11 1])\<lparr>state := ''Authenticated''\<rparr>
   \<and> emitNotifications ((exampleConn [] [])\<lparr>selected := None\<rparr>) = (exampleConn [] [])\<lparr>selected := None\<rparr>"
  using emitNotifications_noop [of "exampleConn [10, 11] []"]
        emitNotifications_noop [of "(exampleConn [10] [exampleUpdate EXISTS 11 1])\<lparr>state := ''Authenticated''\<rparr>"]
        emitNotifications_noop [of "(exampleConn [] [])\<lparr>selected := None\<rparr>"]
  by (simp add: exampleConn_def)

subsection \<open>Closing\<close>

lemma close_close: "close (close c) = close c"
  by (simp add: close_def socketEnd_def Let_def)

lemma onClose_closed: "closed c \<Longrightarrow> onClose c = c"
  by (simp add: onClose_def)

lemma closed_clear: "closed (clear a c) = closed c"
  by (simp add: clear_def Let_def)

lemma closed_onClose: "closed (onClose c)"
  by (simp add: onClose_def Let_def closed_clear split: option.splits)

text \<open>
  Claim C9. Calling \<^verbatim>\<open>close()\<close> twice leaves the connection as calling it once does:
  the socket is ended at most once, the connection is out of \<^verbatim>\<open>server.connections\<close>
  after the first call already, and \<^verbatim>\<open>_onClose\<close> runs its body at most once: a second
  run, or any run with \<^verbatim>\<open>_closed\<close> set, changes nothing.
\<close>

theorem close_idempotent:
  "close (close c) = close c
   \<and> socketEnded (close (close c)) \<le> Suc (socketEnded c)
   \<and> cid c \<notin> connections (close c)
   \<and> onClose (onClose c) = onClose c
   \<and> (closed c \<longrightarrow> onClose c = c)"
proof -
  have "socketEnded (close c) \<le> Suc (socketEnded c)"
    by (simp add: close_def socketEnd_def Let_def)
  moreover have "cid c \<notin> connections (close c)"
    by (simp add: close_def socketEnd_def Let_def)
  moreover have "onClose (onClose c) = onClose c"
    using closed_onClose [of c] by (rule onClose_closed)
  ultimately show ?thesis
    by (simp add: close_close onClose_closed)
qed

theorem close_idempotent_witness:
  "close (close (exampleConn [] [])) = close (exampleConn [] [])
   \<and> socketEnded (close (close (exampleConn [] []))) = 1
   \<and> ''S'' \<notin> connections (close (exampleConn [] []))
   \<and> onClose (onClose (exampleConn [] [])) = onClose (exampleConn [] [])
   \<and> onClose ((exampleConn [] [])\<lparr>closed := True\<rparr>) = (exampleConn [] [])\<lparr>closed := True\<rparr>"
  using close_idempotent [of "exampleConn [] []"]
        close_idempotent [of "(exampleConn [] [])\<lparr>closed := True\<rparr>"]
  by (simp add: exampleConn_def close_def socketEnd_def Let_def)

subsection \<open>Commands during a TLS upgrade\<close>

lemma onCommand_upgrading:
  "upgrading c \<Longrightarrow> onCommand f c = c\<lparr>parserCallbacks := Suc (parserCallbacks c)\<rparr>"
  by (simp add: onCommand_def)

lemma onCommand_final:
  "\<not> upgrading c \<Longrightarrow> final f \<Longrightarrow> currentCommand c = None \<Longrightarrow>
   ended (onCommand f c) = ended c @ [[f]]"
  by (simp add: onCommand_def endCommand_def)

lemma upgrading_onCommand: "upgrading (onCommand f c) = upgrading c"
  by (simp add: onCommand_def endCommand_def Let_def)

lemma onCommand_parserCallbacks:
  "\<not> upgrading c \<Longrightarrow>
   onCommand f (c\<lparr>parserCallbacks := k\<rparr>) = (onCommand f c)\<lparr>parserCallbacks := k\<rparr>"
  by (simp add: onCommand_def endCommand_def Let_def)

lemma commands_parserCallbacks:
  "\<not> upgrading c \<Longrightarrow>
   foldl (\<lambda>c f. onCommand f c) (c\<lparr>parserCallbacks := k\<rparr>) gs
     = (foldl (\<lambda>c f. onCommand f c) c gs)\<lparr>parserCallbacks := k\<rparr>"
proof (induction gs arbitrary: c)
  case Nil
  then show ?case by simp
next
  case (Cons g gs)
  from Cons.prems have "\<not> upgrading (onCommand g c)" by (simp add: upgrading_onCommand)
  then have "foldl (\<lambda>c f. onCommand f c) ((onCommand g c)\<lparr>parserCallbacks := k\<rparr>) gs
     = (foldl (\<lambda>c f. onCommand f c) (onCommand g c) gs)\<lparr>parserCallbacks := k\<rparr>"
    by (rule Cons.IH)
  with Cons.prems show ?case by (simp add: onCommand_parserCallbacks)
qed

lemma commands_upgrading:
  assumes "upgrading c"
  shows "foldl (\<lambda>c f. onCommand f c) c fs = c\<lparr>parserCallbacks := parserCallbacks c + length fs\<rparr>"
  using assms
proof (induction fs arbitrary: c)
  case Nil
  then show ?case by simp
next
  case (Cons f fs)
  have "upgrading (onCommand f c)"
    using Cons.prems by (simp add: onCommand_upgrading)
  from Cons.IH [OF this] show ?case
    using Cons.prems by (simp add: onCommand_upgrading)
qed

text \<open>
  Claim C7, amended. While \<^verbatim>\<open>_upgrading\<close> is true no inbound command is dispatched:
  whatever frames arrive, \<^verbatim>\<open>_onCommand\<close> hands none of them to the command assembler (the
  current command and the list of completed commands stay as they were) and calls the
  parser's callback once per frame, so each frame counts as processed and is dropped.
  Once the upgrade is over, the connection handles what arrives next exactly as if the
  dropped frames had never been sent.
\<close>

theorem upgrading_no_dispatch:
  assumes "upgrading c"
  shows "foldl (\<lambda>c f. onCommand f c) c fs = c\<lparr>parserCallbacks := parserCallbacks c + length fs\<rparr>
         \<and> foldl (\<lambda>c f. onCommand f c)
               ((foldl (\<lambda>c f. onCommand f c) c fs)\<lparr>upgrading := False\<rparr>) gs
             = (foldl (\<lambda>c f. onCommand f c) (c\<lparr>upgrading := False\<rparr>) gs)
                 \<lparr>parserCallbacks := parserCallbacks c + length fs\<rparr>"
proof -
  note first = commands_upgrading [OF assms, of fs]
  have swap: "(foldl (\<lambda>c f. onCommand f c) c fs)\<lparr>upgrading := False\<rparr>
        = (c\<lparr>upgrading := False\<rparr>)\<lparr>parserCallbacks := parserCallbacks c + length fs\<rparr>"
    by (simp add: first)
  have second: "foldl (\<lambda>c f. onCommand f c)
        ((foldl (\<lambda>c f. onCommand f c) c fs)\<lparr>upgrading := False\<rparr>) gs
      = (foldl (\<lambda>c f. onCommand f c) (c\<lparr>upgrading := False\<rparr>) gs)
          \<lparr>parserCallbacks := parserCallbacks c + length fs\<rparr>"
    unfolding swap by (rule commands_parserCallbacks) simp
  from first second show ?thesis by (rule conjI)
qed

theorem upgrading_no_dispatch_witness:
  "upgrading ((exampleConn [] [])\<lparr>upgrading := True\<rparr>)
   \<and> foldl (\<lambda>c f. onCommand f c) ((exampleConn [] [])\<lparr>upgrading := True\<rparr>)
        [\<lparr>payload = ''a1 NOOP'', final = True\<rparr>, \<lparr>payload = ''a2 LOGOUT'', final = True\<rparr>]
      = (exampleConn [] [])\<lparr>upgrading := True, parserCallbacks := 2\<rparr>
   \<and> foldl (\<lambda>c f. onCommand f c)
        ((foldl (\<lambda>c f. onCommand f c) ((exampleConn [] [])\<lparr>upgrading := True\<rparr>)
            [\<lparr>payload = ''a1 NOOP'', final = True\<rparr>, \<lparr>payload = ''a2 LOGOUT'', final = True\<rparr>])
           \<lparr>upgrading := False\<rparr>)
        [\<lparr>payload = ''a3 CAPABILITY'', final = True\<rparr>]
      = (exampleConn [] [])\<lparr>parserCallbacks := 2,
           ended := [[\<lparr>payload = ''a3 CAPABILITY'', final = True\<rparr>]]\<rparr>"
proof -
  have evaluated:
    "upgrading ((exampleConn [] [])\<lparr>upgrading := True\<rparr>)
     \<and> foldl (\<lambda>c f. onCommand f c) ((exampleConn [] [])\<lparr>upgrading := True\<rparr>)
          [\<lparr>payload = ''a1 NOOP'', final = True\<rparr>, \<lparr>payload = ''a2 LOGOUT'', final = True\<rparr>]
        = (exampleConn [] [])\<lparr>upgrading := True, parserCallbacks := 2\<rparr>
     \<and> foldl (\<lambda>c f. onCommand f c)
          ((foldl (\<lambda>c f. onCommand f c) ((exampleConn [] [])\<lparr>upgrading := True\<rparr>)
              [\<lparr>payload = ''a1 NOOP'', final = True\<rparr>, \<lparr>payload = ''a2 LOGOUT'', final = True\<rparr>])
             \<lparr>upgrading := False\<rparr>)
          [\<lparr>payload = ''a3 CAPABILITY'', final = True\<rparr>]
        = (exampleConn [] [])\<lparr>parserCallbacks := 2,
             ended := [[\<lparr>payload = ''a3 CAPABILITY'', final = True\<rparr>]]\<rparr>"
    by (simp add: exampleConn_def onCommand_def endCommand_def commandAppend_def)
  have general:
    "upgrading ((exampleConn [] [])\<lparr>upgrading := True\<rparr>)
     \<and> foldl (\<lambda>c f. onCommand f c) ((exampleConn [] [])\<lparr>upgrading := True\<rparr>)
          [\<lparr>payload = ''a1 NOOP'', final = True\<rparr>, \<lparr>payload = ''a2 LOGOUT'', final = True\<rparr>]
        = (exampleConn [] [])\<lparr>upgrading := True, parserCallbacks := 2\<rparr>
     \<and> foldl (\<lambda>c f. onCommand f c)
          ((foldl (\<lambda>c f. onCommand f c) ((exampleConn [] [])\<lparr>upgrading := True\<rparr>)
              [\<lparr>payload = ''a1 NOOP'', final = True\<rparr>, \<lparr>payload = ''a2 LOGOUT'', final = True\<rparr>])
             \<lparr>upgrading := False\<rparr>)
          [\<lparr>payload = ''a3 CAPABILITY'', final = True\<rparr>]
        = (exampleConn [] [])\<lparr>parserCallbacks := 2,
             ended := [[\<lparr>payload = ''a3 CAPABILITY'', final = True\<rparr>]]\<rparr>"
    using upgrading_no_dispatch [of "(exampleConn [] [])\<lparr>upgrading := True\<rparr>"
          "[\<lparr>payload = ''a1 NOOP'', final = True\<rparr>, \<lparr>payload = ''a2 LOGOUT'', final = True\<rparr>]"
          "[\<lparr>payload = ''a3 CAPABILITY'', final = True\<rparr>]"]
    by (simp add: exampleConn_def onCommand_def endCommand_def)
  show ?thesis by (rule general)
qed

text \<open>
  The claim as first stated (no client bytes beyond the upgrade command are consumed)
  fails: a command that arrives during the upgrade is acknowledged to the parser and
  lost; after the upgrade, the next command is the first one the assembler sees.
\<close>

theorem upgrading_no_dispatch_counterexample:
  "onCommand \<lparr>payload = ''a2 NOOP'', final = True\<rparr> ((exampleConn [] [])\<lparr>upgrading := True\<rparr>)
     = (exampleConn [] [])\<lparr>upgrading := True, parserCallbacks := 1\<rparr>
   \<and> onCommand \<lparr>payload = ''a3 CAPABILITY'', final = True\<rparr>
        ((onCommand \<lparr>payload = ''a2 NOOP'', final = True\<rparr>
            ((exampleConn [] [])\<lparr>upgrading := True\<rparr>))\<lparr>upgrading := False\<rparr>)
     = (exampleConn [] [])\<lparr>parserCallbacks := 1,
          ended := [[\<lparr>payload = ''a3 CAPABILITY'', final = True\<rparr>]]\<rparr>"
  by (simp add: exampleConn_def onCommand_def endCommand_def)


subsection \<open>The walk of the flush\<close>

lemma processUpdate_absent:
  assumes "command u \<noteq> EXISTS" and "uid u \<notin> set (uidList (sel w))"
  shows "out (processUpdate sid skip w u) = out w
         \<and> uidList (sel (processUpdate sid skip w u)) = uidList (sel w)
         \<and> changed (processUpdate sid skip w u) = changed w
         \<and> existsResponse (processUpdate sid skip w u) = existsResponse w"
proof (cases "uid u \<in> skip")
  case True
  then show ?thesis by (simp add: processUpdate_skip)
next
  case notskip: False
  show ?thesis
  proof (cases "ignore u = Some sid")
    case True
    with notskip show ?thesis by (simp add: processUpdate_ignored)
  next
    case False
    with notskip assms show ?thesis
      by (cases "command u")
         (simp_all add: processUpdate_EXPUNGE_absent processUpdate_FETCH_absent processUpdate_OTHER)
  qed
qed

lemma walk_absent:
  assumes "\<forall>u \<in> set xs. command u \<noteq> EXISTS \<and> uid u \<notin> set (uidList (sel w))"
  shows "out (foldl (processUpdate sid skip) w xs) = out w
         \<and> uidList (sel (foldl (processUpdate sid skip) w xs)) = uidList (sel w)
         \<and> changed (foldl (processUpdate sid skip) w xs) = changed w
         \<and> existsResponse (foldl (processUpdate sid skip) w xs) = existsResponse w"
  using assms
proof (induction xs arbitrary: w)
  case Nil
  then show ?case by simp
next
  case (Cons x xs)
  from Cons.prems have x: "command x \<noteq> EXISTS" "uid x \<notin> set (uidList (sel w))" by simp_all
  note step = processUpdate_absent [OF x, of sid skip]
  from Cons.prems step
  have "\<forall>u \<in> set xs. command u \<noteq> EXISTS \<and> uid u \<notin> set (uidList (sel (processUpdate sid skip w x)))"
    by simp
  from Cons.IH [OF this] step show ?case by simp
qed

lemma set_dropFetches: "set (dropFetches A R F xs) \<subseteq> set xs"
  by (induction xs arbitrary: F) auto

lemma set_filterFetches: "set (filterFetches q) \<subseteq> set q"
  using set_dropFetches [of _ _ _ "rev q"] by (simp add: filterFetches_def)

lemma finishFlush_idle:
  "\<not> changed w \<Longrightarrow> existsResponse w = None \<Longrightarrow> finishFlush w = w"
  by (simp add: finishFlush_def)

lemma sel_finishFlush: "sel (finishFlush w) = sel w"
  by (simp add: finishFlush_def Let_def)

lemma finishFlush_changed:
  "changed w \<Longrightarrow> out (finishFlush w) = out w @ [existsLiteral (length (uidList (sel w)))]"
  by (simp add: finishFlush_def Let_def streamWrite_def)

lemma finishFlush_deferred:
  "\<not> changed w \<Longrightarrow> existsResponse w = Some r \<Longrightarrow> out (finishFlush w) = out w @ [r]"
  by (simp add: finishFlush_def Let_def streamWrite_def)


lemma emitNotifications_walked:
  assumes "state c = ''Selected''" and "selected c = Some s" and "notifications s \<noteq> []"
  shows "written (emitNotifications c) = out (finishFlush (walked c s))"
    and "selected (emitNotifications c) = Some ((sel (walked c s))\<lparr>notifications := []\<rparr>)"
  using assms by (simp_all add: emitNotifications_def walked_def Let_def sel_finishFlush)

text \<open>
  Claim C5. An EXPUNGE or FETCH update whose uid is absent from the uid list is dropped:
  the iteration that handles it writes no response and leaves the uid list unchanged,
  because \<^verbatim>\<open>formatResponse\<close> returns \<^verbatim>\<open>false\<close> for a uid it cannot locate and leaves the
  list alone. Only EXISTS may name a uid not yet in the list, and \<^verbatim>\<open>formatResponse\<close>
  appends that uid. A flush whose queue holds no EXISTS and only uids absent from the
  uid list writes nothing and keeps the uid list.
\<close>

theorem absent_uid_dropped:
  "((command u = EXPUNGE \<or> command u = FETCH) \<and> uid u \<notin> set (uidList (sel w)) \<longrightarrow>
      out (processUpdate sid skip w u) = out w
      \<and> uidList (sel (processUpdate sid skip w u)) = uidList (sel w))
   \<and> ((k = EXPUNGE \<or> k = FETCH) \<and> x \<notin> set (uidList s) \<longrightarrow> formatResponse k x d s = (None, s))
   \<and> (\<exists>r. formatResponse EXISTS x d s = (Some r, s\<lparr>uidList := uidList s @ [x]\<rparr>))
   \<and> (state c = ''Selected'' \<and> selected c = Some s
        \<and> (\<forall>v \<in> set (notifications s). command v \<noteq> EXISTS \<and> uid v \<notin> set (uidList s)) \<longrightarrow>
      written (emitNotifications c) = written c
      \<and> map_option uidList (selected (emitNotifications c)) = Some (uidList s))"
proof -
  have step: "(command u = EXPUNGE \<or> command u = FETCH) \<and> uid u \<notin> set (uidList (sel w)) \<longrightarrow>
      out (processUpdate sid skip w u) = out w
      \<and> uidList (sel (processUpdate sid skip w u)) = uidList (sel w)"
    using processUpdate_absent [of u w sid skip] by auto
  have fmt: "(k = EXPUNGE \<or> k = FETCH) \<and> x \<notin> set (uidList s) \<longrightarrow> formatResponse k x d s = (None, s)"
    using formatResponse_absent [of k x s d] by auto
  have ex: "\<exists>r. formatResponse EXISTS x d s = (Some r, s\<lparr>uidList := uidList s @ [x]\<rparr>)"
    by (simp add: formatResponse_EXISTS)
  have whole: "written (emitNotifications c) = written c
      \<and> map_option uidList (selected (emitNotifications c)) = Some (uidList s)"
    if sel: "state c = ''Selected''" "selected c = Some s"
      and q: "\<forall>v \<in> set (notifications s). command v \<noteq> EXISTS \<and> uid v \<notin> set (uidList s)"
  proof (cases "notifications s = []")
    case True
    with sel show ?thesis by (simp add: emitNotifications_def)
  next
    case False
    let ?w0 = "\<lparr>sel = s\<lparr>notifications := filterFetches (notifications s)\<rparr>, out = written c,
        logs = logged c @ [LogPending (length (notifications s))],
        changed = False, existsResponse = None\<rparr>"
    from q set_filterFetches [of "notifications s"]
    have "\<forall>v \<in> set (filterFetches (notifications s)).
            command v \<noteq> EXISTS \<and> uid v \<notin> set (uidList (sel ?w0))"
      by auto
    from walk_absent [OF this, of "cid c" "skipUids (notifications s)"]
    have w: "out (walked c s) = written c" "uidList (sel (walked c s)) = uidList s"
      "\<not> changed (walked c s)" "existsResponse (walked c s) = None"
      by (simp_all add: walked_def)
    from w(3,4) have "finishFlush (walked c s) = walked c s" by (rule finishFlush_idle)
    with w emitNotifications_walked [OF sel False] show ?thesis by simp
  qed
  from step fmt ex whole show ?thesis by blast
qed

theorem absent_uid_dropped_witness:
  "formatResponse EXPUNGE 12 None
     \<lparr>mailbox = ''INBOX'', uidList = [10, 11], modifyIndex = 0, condstoreEnabled = False, notifications = []\<rparr>
     = (None, \<lparr>mailbox = ''INBOX'', uidList = [10, 11], modifyIndex = 0, condstoreEnabled = False, notifications = []\<rparr>)
   \<and> written (emitNotifications (exampleConn [10, 11] [exampleUpdate EXPUNGE 12 1, exampleUpdate FETCH 13 2])) = []
   \<and> map_option uidList (selected (emitNotifications
        (exampleConn [10, 11] [exampleUpdate EXPUNGE 12 1, exampleUpdate FETCH 13 2]))) = Some [10, 11]"
  using absent_uid_dropped [of "exampleUpdate EXPUNGE 12 1" _ _ _ EXPUNGE 12
      "\<lparr>mailbox = ''INBOX'', uidList = [10, 11], modifyIndex = 0, condstoreEnabled = False,
        notifications = [exampleUpdate EXPUNGE 12 1, exampleUpdate FETCH 13 2]\<rparr>" None
      "exampleConn [10, 11] [exampleUpdate EXPUNGE 12 1, exampleUpdate FETCH 13 2]"]
    absent_uid_dropped [of "exampleUpdate EXPUNGE 12 1" _ _ _ EXPUNGE 12
      "\<lparr>mailbox = ''INBOX'', uidList = [10, 11], modifyIndex = 0, condstoreEnabled = False,
        notifications = []\<rparr>" None]
  by (simp add: exampleConn_def exampleUpdate_def)

lemma length_splice1: "i < length xs \<Longrightarrow> length (splice1 i xs) = length xs - 1"
  by (simp add: splice1_def)

lemma dropFetches_no_FETCH:
  "\<forall>u \<in> set xs. command u \<noteq> FETCH \<Longrightarrow> dropFetches A R F xs = xs"
  by (induction xs) auto

lemma filterFetches_no_FETCH:
  "\<forall>u \<in> set q. command u \<noteq> FETCH \<Longrightarrow> filterFetches q = q"
  by (simp add: filterFetches_def dropFetches_no_FETCH)

lemma indexOf_position:
  "i < length xs \<Longrightarrow> xs ! i = x \<Longrightarrow> x \<notin> set (take i xs) \<Longrightarrow> indexOf xs x = int i"
proof (induction xs arbitrary: i)
  case Nil
  then show ?case by simp
next
  case (Cons y ys)
  show ?case
  proof (cases i)
    case 0
    with Cons.prems show ?thesis by simp
  next
    case (Suc j)
    with Cons.prems have "j < length ys" "ys ! j = x" "x \<notin> set (take j ys)" "y \<noteq> x"
      by auto
    with Cons.IH [of j] Suc show ?thesis by (simp add: Let_def)
  qed
qed

text \<open>
  Claim C2, amended. A flush that processes EXISTS for a new uid and afterwards EXPUNGE
  for a uid already in the uid list, neither record carrying the session's own id in
  \<^verbatim>\<open>ignore\<close>, writes the EXPUNGE at that uid's 1-based index (the position \<open>i\<close> of its
  first occurrence, plus one) and then one synthesized EXISTS whose count is the length
  of the resulting uid list. The uid list ends as the old one without position \<open>i\<close> and
  with the new uid at its end: the deferred EXISTS response is not written, and the final
  writes do not touch the selected mailbox (the synthesized EXISTS is built without
  \<^verbatim>\<open>formatResponse\<close>).
\<close>

theorem exists_then_expunge:
  assumes "state c = ''Selected''" and "selected c = Some s"
    and "notifications s = [e, x]"
    and "command e = EXISTS" and "command x = EXPUNGE"
    and "uid e \<notin> set (uidList s)"
    and "i < length (uidList s)" and "uidList s ! i = uid x"
    and "uid x \<notin> set (take i (uidList s))"
    and "ignore e \<noteq> Some (cid c)" and "ignore x \<noteq> Some (cid c)"
  shows "selected (emitNotifications c)
           = Some (s\<lparr>uidList := take i (uidList s) @ drop (Suc i) (uidList s) @ [uid e],
                     modifyIndex := max (max (modifyIndex s) (modseq e)) (modseq x),
                     notifications := []\<rparr>)
         \<and> written (emitNotifications c)
             = written c
               @ [\<lparr>tag = ''*'', rcommand = toString (Suc i),
                   attributes = [Node ''atom'' ''EXPUNGE'']\<rparr>,
                  \<lparr>tag = ''*'', rcommand = toString (length (uidList s)),
                   attributes = [Node ''atom'' ''EXISTS'']\<rparr>]
         \<and> sel (finishFlush (walked c s)) = sel (walked c s)"
proof -
  from assms(7,8) have inx: "uid x \<in> set (uidList s)" by (auto simp: in_set_conv_nth)
  with assms(6) have ne: "uid x \<noteq> uid e" by auto
  from assms ne have skip: "skipUids (notifications s) = {}"
    by (simp add: skipUids_def addedUids_def)
  from assms have ff: "filterFetches (notifications s) = [e, x]"
    by (simp add: filterFetches_no_FETCH)
  have idx: "indexOf (uidList s) (uid x) = int i"
    using assms(7,8,9) by (rule indexOf_position)
  let ?w0 = "\<lparr>sel = s\<lparr>notifications := [e, x]\<rparr>, out = written c,
        logs = logged c @ [LogPending (length (notifications s))],
        changed = False, existsResponse = None\<rparr>"
  let ?w1 = "processUpdate (cid c) {} ?w0 e"
  let ?w2 = "processUpdate (cid c) {} ?w1 x"
  have w: "walked c s = ?w2"
    by (simp add: walked_def skip ff)
  from assms(4,10) have w1: "sel ?w1 = s\<lparr>notifications := [e, x],
        modifyIndex := max (modifyIndex s) (modseq e), uidList := uidList s @ [uid e]\<rparr>"
    "out ?w1 = written c"
    by (simp_all add: processUpdate_EXISTS)
  from inx w1 have inx1: "uid x \<in> set (uidList (sel ?w1))" by simp
  have idx1: "indexOf (uidList s @ [uid e]) (uid x) = int i"
    using inx idx by (simp add: indexOf_append)
  from assms(7) have sp: "splice1 i (uidList s @ [uid e])
      = take i (uidList s) @ drop (Suc i) (uidList s) @ [uid e]"
    by (simp add: splice1_def)
  from assms(11) assms(5) inx1
  have w2: "sel ?w2 = s\<lparr>notifications := [e, x],
        modifyIndex := max (max (modifyIndex s) (modseq e)) (modseq x),
        uidList := take i (uidList s) @ drop (Suc i) (uidList s) @ [uid e]\<rparr>"
    "out ?w2 = written c @ [\<lparr>tag = ''*'', rcommand = toString (Suc i),
                   attributes = [Node ''atom'' ''EXPUNGE'']\<rparr>]"
    "changed ?w2"
    by (simp_all add: processUpdate_EXPUNGE_present [where skip = "{}"] w1 idx1 sp
        mkResponse_def nat_add_distrib)
  from assms have q: "notifications s \<noteq> []" by simp
  note emit = emitNotifications_walked [OF assms(1,2) q]
  from w2(3) have f1: "out (finishFlush ?w2) = out ?w2 @ [existsLiteral (length (uidList (sel ?w2)))]"
    by (rule finishFlush_changed)
  have l2: "length (uidList (sel ?w2)) = length (uidList s)"
    unfolding w2(1) using assms(7) by simp
  have fin: "out (finishFlush ?w2) = written c
      @ [\<lparr>tag = ''*'', rcommand = toString (Suc i), attributes = [Node ''atom'' ''EXPUNGE'']\<rparr>,
         \<lparr>tag = ''*'', rcommand = toString (length (uidList s)),
          attributes = [Node ''atom'' ''EXISTS'']\<rparr>]"
    unfolding f1 l2 w2(2) existsLiteral_def by simp
  from emit(2) w w2(1) have "selected (emitNotifications c)
           = Some (s\<lparr>uidList := take i (uidList s) @ drop (Suc i) (uidList s) @ [uid e],
                     modifyIndex := max (max (modifyIndex s) (modseq e)) (modseq x),
                     notifications := []\<rparr>)"
    by simp
  moreover from emit(1) w fin have "written (emitNotifications c)
             = written c
               @ [\<lparr>tag = ''*'', rcommand = toString (Suc i),
                   attributes = [Node ''atom'' ''EXPUNGE'']\<rparr>,
                  \<lparr>tag = ''*'', rcommand = toString (length (uidList s)),
                   attributes = [Node ''atom'' ''EXISTS'']\<rparr>]"
    by simp
  ultimately show ?thesis using sel_finishFlush [of "walked c s"] by simp
qed

theorem exists_then_expunge_witness:
  "(written (emitNotifications (exampleConn [10, 11] [exampleUpdate EXISTS 12 1, exampleUpdate EXPUNGE 10 2]))
     = [\<lparr>tag = ''*'', rcommand = ''1'', attributes = [Node ''atom'' ''EXPUNGE'']\<rparr>,
        \<lparr>tag = ''*'', rcommand = ''2'', attributes = [Node ''atom'' ''EXISTS'']\<rparr>]
   \<and> map_option uidList (selected (emitNotifications
        (exampleConn [10, 11] [exampleUpdate EXISTS 12 1, exampleUpdate EXPUNGE 10 2]))) = Some [11, 12])
   \<and> (written (emitNotifications (exampleConn [10, 11, 12] [exampleUpdate EXISTS 13 1, exampleUpdate EXPUNGE 12 2]))
     = [\<lparr>tag = ''*'', rcommand = ''3'', attributes = [Node ''atom'' ''EXPUNGE'']\<rparr>,
        \<lparr>tag = ''*'', rcommand = ''3'', attributes = [Node ''atom'' ''EXISTS'']\<rparr>]
   \<and> map_option uidList (selected (emitNotifications
        (exampleConn [10, 11, 12] [exampleUpdate EXISTS 13 1, exampleUpdate EXPUNGE 12 2]))) = Some [10, 11, 13])"
proof -
  have first: "written (emitNotifications (exampleConn [10, 11] [exampleUpdate EXISTS 12 1, exampleUpdate EXPUNGE 10 2]))
     = [\<lparr>tag = ''*'', rcommand = ''1'', attributes = [Node ''atom'' ''EXPUNGE'']\<rparr>,
        \<lparr>tag = ''*'', rcommand = ''2'', attributes = [Node ''atom'' ''EXISTS'']\<rparr>]
   \<and> map_option uidList (selected (emitNotifications
        (exampleConn [10, 11] [exampleUpdate EXISTS 12 1, exampleUpdate EXPUNGE 10 2]))) = Some [11, 12]"
    by (simp add: exampleConn_def exampleUpdate_def flush_eval toString_def decimal.simps digit_def)
  have third: "written (emitNotifications (exampleConn [10, 11, 12] [exampleUpdate EXISTS 13 1, exampleUpdate EXPUNGE 12 2]))
     = [\<lparr>tag = ''*'', rcommand = ''3'', attributes = [Node ''atom'' ''EXPUNGE'']\<rparr>,
        \<lparr>tag = ''*'', rcommand = ''3'', attributes = [Node ''atom'' ''EXISTS'']\<rparr>]
   \<and> map_option uidList (selected (emitNotifications
        (exampleConn [10, 11, 12] [exampleUpdate EXISTS 13 1, exampleUpdate EXPUNGE 12 2]))) = Some [10, 11, 13]"
    by (simp add: exampleConn_def exampleUpdate_def flush_eval toString_def decimal.simps digit_def)
  have general: "(written (emitNotifications (exampleConn [10, 11] [exampleUpdate EXISTS 12 1, exampleUpdate EXPUNGE 10 2]))
     = [\<lparr>tag = ''*'', rcommand = ''1'', attributes = [Node ''atom'' ''EXPUNGE'']\<rparr>,
        \<lparr>tag = ''*'', rcommand = ''2'', attributes = [Node ''atom'' ''EXISTS'']\<rparr>]
   \<and> map_option uidList (selected (emitNotifications
        (exampleConn [10, 11] [exampleUpdate EXISTS 12 1, exampleUpdate EXPUNGE 10 2]))) = Some [11, 12])
   \<and> (written (emitNotifications (exampleConn [10, 11, 12] [exampleUpdate EXISTS 13 1, exampleUpdate EXPUNGE 12 2]))
     = [\<lparr>tag = ''*'', rcommand = ''3'', attributes = [Node ''atom'' ''EXPUNGE'']\<rparr>,
        \<lparr>tag = ''*'', rcommand = ''3'', attributes = [Node ''atom'' ''EXISTS'']\<rparr>]
   \<and> map_option uidList (selected (emitNotifications
        (exampleConn [10, 11, 12] [exampleUpdate EXISTS 13 1, exampleUpdate EXPUNGE 12 2]))) = Some [10, 11, 13])"
    using exists_then_expunge [of "exampleConn [10, 11] [exampleUpdate EXISTS 12 1, exampleUpdate EXPUNGE 10 2]"
      "\<lparr>mailbox = ''INBOX'', uidList = [10, 11], modifyIndex = 0, condstoreEnabled = False,
        notifications = [exampleUpdate EXISTS 12 1, exampleUpdate EXPUNGE 10 2]\<rparr>"
      "exampleUpdate EXISTS 12 1" "exampleUpdate EXPUNGE 10 2" 0]
    exists_then_expunge [of "exampleConn [10, 11, 12] [exampleUpdate EXISTS 13 1, exampleUpdate EXPUNGE 12 2]"
      "\<lparr>mailbox = ''INBOX'', uidList = [10, 11, 12], modifyIndex = 0, condstoreEnabled = False,
        notifications = [exampleUpdate EXISTS 13 1, exampleUpdate EXPUNGE 12 2]\<rparr>"
      "exampleUpdate EXISTS 13 1" "exampleUpdate EXPUNGE 12 2" 2]
    by (simp add: exampleConn_def exampleUpdate_def toString_def decimal.simps digit_def)
  show ?thesis by (rule general)
qed

text \<open>
  The claim as first stated fails when the EXPUNGE record carries the session's own id
  in \<^verbatim>\<open>ignore\<close>: it is passed over before the switch, so no EXPUNGE is written, the uid
  stays in the list, and the deferred EXISTS goes out with the count 3.
\<close>

theorem exists_then_expunge_counterexample:
  "written (emitNotifications (exampleConn [10, 11]
       [exampleUpdate EXISTS 12 1, (exampleUpdate EXPUNGE 10 2)\<lparr>ignore := Some ''S''\<rparr>]))
     = [\<lparr>tag = ''*'', rcommand = ''3'', attributes = [Node ''atom'' ''EXISTS'']\<rparr>]
   \<and> map_option uidList (selected (emitNotifications (exampleConn [10, 11]
       [exampleUpdate EXISTS 12 1, (exampleUpdate EXPUNGE 10 2)\<lparr>ignore := Some ''S''\<rparr>])))
     = Some [10, 11, 12]"
  by (simp add: exampleConn_def exampleUpdate_def flush_eval toString_def decimal.simps digit_def)

lemma dropFetches_others:
  "filter (\<lambda>u. command u \<noteq> FETCH) (dropFetches A R F xs) = filter (\<lambda>u. command u \<noteq> FETCH) xs"
  by (induction xs arbitrary: F) auto

lemma filterFetches_others:
  "filter (\<lambda>u. command u \<noteq> FETCH) (filterFetches q) = filter (\<lambda>u. command u \<noteq> FETCH) q"
  by (simp add: filterFetches_def dropFetches_others rev_filter [symmetric])

lemma processUpdate_ignored_view:
  assumes "ignore u = Some sid"
  shows "out (processUpdate sid skip w u) = out w
         \<and> uidList (sel (processUpdate sid skip w u)) = uidList (sel w)
         \<and> changed (processUpdate sid skip w u) = changed w
         \<and> existsResponse (processUpdate sid skip w u) = existsResponse w"
proof (cases "uid u \<in> skip")
  case True
  then show ?thesis by (simp add: processUpdate_skip)
next
  case False
  with assms show ?thesis by (simp add: processUpdate_ignored)
qed

lemma walk_exists_only:
  assumes "\<forall>u \<in> set xs. command u = EXISTS"
  shows "out (foldl (processUpdate sid {}) w xs) = out w
         \<and> uidList (sel (foldl (processUpdate sid {}) w xs))
             = uidList (sel w) @ map uid (filter (\<lambda>u. ignore u \<noteq> Some sid) xs)
         \<and> (filter (\<lambda>u. ignore u \<noteq> Some sid) xs \<noteq> [] \<longrightarrow>
              \<not> changed (foldl (processUpdate sid {}) w xs)
              \<and> existsResponse (foldl (processUpdate sid {}) w xs)
                  = Some (existsLiteral (length (uidList (sel (foldl (processUpdate sid {}) w xs))))))"
  using assms
proof (induction xs rule: rev_induct)
  case Nil
  then show ?case by simp
next
  case (snoc x xs)
  let ?w = "foldl (processUpdate sid {}) w xs"
  from snoc.prems have xs: "\<forall>u \<in> set xs. command u = EXISTS" and x: "command x = EXISTS"
    by simp_all
  note IH = snoc.IH [OF xs]
  show ?case
  proof (cases "ignore x = Some sid")
    case True
    from processUpdate_ignored_view [OF True, of "{}" ?w] IH True show ?thesis
      by simp
  next
    case False
    with x have "processUpdate sid {} ?w x =
      ?w\<lparr>sel := (sel ?w)\<lparr>modifyIndex := max (modifyIndex (sel ?w)) (modseq x),
                      uidList := uidList (sel ?w) @ [uid x]\<rparr>,
       logs := logs ?w @ [LogProcessing x, LogUIDS (length (uidList (sel ?w)))],
       existsResponse := Some (existsLiteral (Suc (length (uidList (sel ?w))))),
       changed := False\<rparr>"
      by (simp add: processUpdate_EXISTS)
    with IH False show ?thesis by simp
  qed
qed

text \<open>
  Claim C1, amended. For a flush on a selected connection whose surviving updates (the
  queue after FETCH coalescing) are EXISTS records only, at least one of them with an
  \<^verbatim>\<open>ignore\<close> field different from the session id, \<^verbatim>\<open>emitNotifications\<close> writes exactly
  one untagged EXISTS response; its sequence number is the length of the uid list after the
  uid of every EXISTS record not ignored for this session has been appended in arrival
  order.
\<close>

theorem coalesced_exists:
  assumes "state c = ''Selected''" and "selected c = Some s"
    and "\<forall>u \<in> set (filterFetches (notifications s)). command u = EXISTS"
    and "\<exists>u \<in> set (notifications s). command u = EXISTS \<and> ignore u \<noteq> Some (cid c)"
  shows "\<exists>s1. selected (emitNotifications c) = Some s1
           \<and> uidList s1 = uidList s
               @ map uid (filter (\<lambda>u. command u = EXISTS \<and> ignore u \<noteq> Some (cid c))
                            (notifications s))
           \<and> written (emitNotifications c) = written c @ [existsLiteral (length (uidList s1))]"
proof -
  let ?q = "notifications s"
  let ?q1 = "filterFetches ?q"
  let ?sid = "cid c"
  from assms(3) have "filter (\<lambda>u. command u \<noteq> FETCH) ?q1 = ?q1"
    by (simp add: filter_id_conv)
  then have q1: "?q1 = filter (\<lambda>u. command u \<noteq> FETCH) ?q"
    by (simp add: filterFetches_others)
  with assms(3) have others: "\<forall>u \<in> set ?q. command u \<noteq> FETCH \<longrightarrow> command u = EXISTS"
    by simp
  then have "filter (\<lambda>u. command u = EXPUNGE) ?q = []"
    by (auto simp: filter_empty_conv)
  then have skip: "skipUids ?q = {}"
    by (simp add: skipUids_def)
  from others have "\<And>u. u \<in> set ?q \<Longrightarrow>
      (command u = EXISTS \<and> ignore u \<noteq> Some ?sid) = (command u \<noteq> FETCH \<and> ignore u \<noteq> Some ?sid)"
    by auto
  then have "filter (\<lambda>u. command u = EXISTS \<and> ignore u \<noteq> Some ?sid) ?q
              = filter (\<lambda>u. command u \<noteq> FETCH \<and> ignore u \<noteq> Some ?sid) ?q"
    by (rule filter_cong [OF refl])
  also have "\<dots> = filter (\<lambda>u. ignore u \<noteq> Some ?sid) ?q1"
    by (simp add: q1 conj_commute)
  finally have live: "filter (\<lambda>u. command u = EXISTS \<and> ignore u \<noteq> Some ?sid) ?q
                      = filter (\<lambda>u. ignore u \<noteq> Some ?sid) ?q1" .
  from assms(4) have "filter (\<lambda>u. command u = EXISTS \<and> ignore u \<noteq> Some ?sid) ?q \<noteq> []"
    by (auto simp: filter_empty_conv)
  with live have nonempty: "filter (\<lambda>u. ignore u \<noteq> Some ?sid) ?q1 \<noteq> []" by simp
  let ?w0 = "\<lparr>sel = s\<lparr>notifications := ?q1\<rparr>, out = written c,
        logs = logged c @ [LogPending (length ?q)],
        changed = False, existsResponse = None\<rparr>"
  have w: "walked c s = foldl (processUpdate ?sid {}) ?w0 ?q1"
    by (simp add: walked_def skip)
  from walk_exists_only [OF assms(3), of ?sid ?w0] nonempty w
  have walk: "out (walked c s) = written c"
    "uidList (sel (walked c s)) = uidList s @ map uid (filter (\<lambda>u. ignore u \<noteq> Some ?sid) ?q1)"
    "\<not> changed (walked c s)"
    "existsResponse (walked c s) = Some (existsLiteral (length (uidList (sel (walked c s)))))"
    by simp_all
  from assms(4) have q: "?q \<noteq> []" by auto
  note emit = emitNotifications_walked [OF assms(1,2) q]
  from finishFlush_deferred [OF walk(3,4)] emit walk live show ?thesis
    by simp
qed

theorem coalesced_exists_witness:
  "written (emitNotifications (exampleConn [10, 11]
       [exampleUpdate EXISTS 12 1, exampleUpdate EXISTS 13 2, exampleUpdate EXISTS 14 3]))
     = [\<lparr>tag = ''*'', rcommand = ''5'', attributes = [Node ''atom'' ''EXISTS'']\<rparr>]
   \<and> map_option uidList (selected (emitNotifications (exampleConn [10, 11]
       [exampleUpdate EXISTS 12 1, exampleUpdate EXISTS 13 2, exampleUpdate EXISTS 14 3])))
     = Some [10, 11, 12, 13, 14]"
  using coalesced_exists [of "exampleConn [10, 11]
       [exampleUpdate EXISTS 12 1, exampleUpdate EXISTS 13 2, exampleUpdate EXISTS 14 3]"
      "\<lparr>mailbox = ''INBOX'', uidList = [10, 11], modifyIndex = 0, condstoreEnabled = False,
        notifications = [exampleUpdate EXISTS 12 1, exampleUpdate EXISTS 13 2, exampleUpdate EXISTS 14 3]\<rparr>"]
  by (auto simp: exampleConn_def exampleUpdate_def existsLiteral_def filterFetches_def
      addedUids_def removedUids_def toString_def decimal.simps digit_def)

text \<open>
  The claim as first stated fails on an EXISTS record that carries the session's own id
  in \<^verbatim>\<open>ignore\<close>: the queue holds EXISTS records only, yet nothing is written and the
  uid is not appended.
\<close>

theorem coalesced_exists_counterexample:
  "filterFetches [(exampleUpdate EXISTS 12 1)\<lparr>ignore := Some ''S''\<rparr>]
     = [(exampleUpdate EXISTS 12 1)\<lparr>ignore := Some ''S''\<rparr>]
   \<and> command ((exampleUpdate EXISTS 12 1)\<lparr>ignore := Some ''S''\<rparr>) = EXISTS
   \<and> written (emitNotifications
        (exampleConn [10, 11] [(exampleUpdate EXISTS 12 1)\<lparr>ignore := Some ''S''\<rparr>])) = []
   \<and> map_option uidList (selected (emitNotifications
        (exampleConn [10, 11] [(exampleUpdate EXISTS 12 1)\<lparr>ignore := Some ''S''\<rparr>]))) = Some [10, 11]"
  by (simp add: exampleConn_def exampleUpdate_def emitNotifications_def filterFetches_def
      addedUids_def removedUids_def skipUids_def processUpdate_def finishFlush_def Let_def)


subsection \<open>Errors of getUpdates\<close>

text \<open>
  Claim C8, amended. When \<^verbatim>\<open>getUpdates\<close> returns an error, nothing is written to the
  client, and the selected mailbox (modify index and pending queue with it) is left
  exactly as it was. If the listener has not been cleared in the meantime, the callback
  releases the lock and logs the error; if it has been cleared, the callback returns at
  once and changes nothing at all (no log entry, the lock of the dead listener untouched).
\<close>

theorem getUpdates_error:
  assumes "a < length (listeners c)"
  shows "written (getUpdatesCallback a (Some e) updates c) = written c
         \<and> sent (getUpdatesCallback a (Some e) updates c) = sent c
         \<and> selected (getUpdatesCallback a (Some e) updates c) = selected c
         \<and> (\<not> cleared (listeners c ! a) \<longrightarrow>
              logged (getUpdatesCallback a (Some e) updates c)
                = logged c @ [LogNotificationError (emessage e)]
              \<and> \<not> lock (listeners (getUpdatesCallback a (Some e) updates c) ! a))
         \<and> (cleared (listeners c ! a) \<longrightarrow> getUpdatesCallback a (Some e) updates c = c)"
  using assms by (simp add: getUpdatesCallback_def Let_def)

theorem getUpdates_error_witness:
  "run [UpdateNotificationListener, Callback 0 None, GetUpdatesCallback 0 (Some exampleError) []]
     (exampleConn [10] [exampleUpdate EXISTS 11 1])
   = Some ((exampleConn [10] [exampleUpdate EXISTS 11 1])
       \<lparr>listenerData := Some 0,
        listeners := [\<lparr>lmailbox = ''INBOX'', lock = False, cleared = False\<rparr>],
        registered := {0}, requests := [(0, Some ''INBOX'', 0)],
        logged := [LogNotificationError ''store unavailable'']\<rparr>)
   \<and> getUpdatesCallback 0 (Some exampleError) [] clearedInFlight = clearedInFlight"
  using getUpdates_error [of 0 "(exampleConn [10] [exampleUpdate EXISTS 11 1])
       \<lparr>listenerData := Some 0,
        listeners := [\<lparr>lmailbox = ''INBOX'', lock = True, cleared = False\<rparr>],
        registered := {0}, requests := [(0, Some ''INBOX'', 0)]\<rparr>" exampleError "[]"]
    getUpdates_error [of 0 clearedInFlight exampleError "[]"]
  by (simp add: exampleConn_def exampleError_def clearedInFlight_def
      updateNotificationListener_def callback_def getUpdatesCallback_def Let_def)

text \<open>
  The claim as first stated (the error is always logged and the lock always released)
  fails when the connection was closed while the request was in flight.
\<close>

theorem getUpdates_error_counterexample:
  "run [UpdateNotificationListener, Callback 0 None, OnClose] (exampleConn [10] [])
     = Some clearedInFlight
   \<and> getUpdatesCallback 0 (Some exampleError) [] clearedInFlight = clearedInFlight
   \<and> lock (listeners clearedInFlight ! 0)
   \<and> logged clearedInFlight = [LogConnectionClosed]"
  by (simp add: exampleConn_def clearedInFlight_def updateNotificationListener_def
      callback_def onClose_def clear_def getUpdatesCallback_def Let_def)

subsection \<open>The modify index over executions\<close>

lemma selected_clear: "selected (clear a c) = selected c"
  by (simp add: clear_def Let_def)

lemma selected_close: "selected (close c) = selected c"
  by (simp add: close_def socketEnd_def Let_def)

lemma selected_send: "send p c = Some c1 \<Longrightarrow> selected c1 = selected c"
  by (auto simp: send_def split: if_splits)

lemma selected_onClose: "selected (onClose c) = selected c"
  by (simp add: onClose_def Let_def selected_clear split: option.splits)

lemma selected_onEnd: "selected (onEnd c) = selected c"
  by (simp add: onEnd_def Let_def selected_onClose)

lemma selected_onError: "selected (onError e c) = selected c"
  by (simp add: onError_def selected_close)

lemma selected_onTimeout: "onTimeout c = Some c1 \<Longrightarrow> selected c1 = selected c"
  by (auto simp: onTimeout_def Let_def selected_close split: if_splits option.splits
      dest!: selected_send)

lemma selected_onCommand: "selected (onCommand f c) = selected c"
  by (simp add: onCommand_def endCommand_def Let_def)

lemma selected_updateNotificationListener:
  "selected (updateNotificationListener c) = selected c"
  by (simp add: updateNotificationListener_def Let_def selected_clear split: option.splits)

lemma selected_callback: "callback a m c = Some c1 \<Longrightarrow> selected c1 = selected c"
  by (auto simp: callback_def Let_def selected_close selected_clear
      split: if_splits option.splits dest!: selected_send)

lemma modifyIndex_formatResponse:
  "modifyIndex (snd (formatResponse k u d s)) = modifyIndex s"
  by (simp add: formatResponse_def Let_def)

lemma modifyIndex_processUpdate:
  "modifyIndex (sel (processUpdate sid skip w u))
     = (if uid u \<notin> skip \<and> modifyIndex (sel w) < modseq u then modseq u
        else modifyIndex (sel w))"
proof (cases "uid u \<in> skip")
  case True
  then show ?thesis by (simp add: processUpdate_skip)
next
  case notskip: False
  show ?thesis
  proof (cases "ignore u = Some sid")
    case True
    with notskip show ?thesis by (simp add: processUpdate_ignored max_def)
  next
    case live: False
    show ?thesis
    proof (cases "uid u \<in> set (uidList (sel w))")
      case True
      with notskip live show ?thesis
        by (cases "command u")
           (simp_all add: processUpdate_EXISTS processUpdate_EXPUNGE_present
              processUpdate_FETCH_present processUpdate_OTHER max_def)
    next
      case False
      with notskip live show ?thesis
        by (cases "command u")
           (simp_all add: processUpdate_EXISTS processUpdate_EXPUNGE_absent
              processUpdate_FETCH_absent processUpdate_OTHER max_def)
    qed
  qed
qed

lemma modifyIndex_walk:
  "modifyIndex (sel w) \<le> modifyIndex (sel (foldl (processUpdate sid skip) w xs))"
proof (induction xs arbitrary: w)
  case Nil
  then show ?case by simp
next
  case (Cons x xs)
  have "modifyIndex (sel w) \<le> modifyIndex (sel (processUpdate sid skip w x))"
    by (simp add: modifyIndex_processUpdate)
  also have "\<dots> \<le> modifyIndex (sel (foldl (processUpdate sid skip) (processUpdate sid skip w x) xs))"
    by (rule Cons.IH)
  finally show ?case by simp
qed

lemma modifyIndex_emitNotifications:
  assumes "selected c = Some s"
  shows "\<exists>s1. selected (emitNotifications c) = Some s1 \<and> modifyIndex s \<le> modifyIndex s1"
proof (cases "state c \<noteq> ''Selected'' \<or> notifications s = []")
  case True
  with assms show ?thesis by (auto simp: emitNotifications_def)
next
  case False
  with assms have "selected (emitNotifications c) = Some ((sel (walked c s))\<lparr>notifications := []\<rparr>)"
    by (simp add: emitNotifications_def walked_def Let_def sel_finishFlush)
  moreover have "modifyIndex s \<le> modifyIndex (sel (walked c s))"
    using modifyIndex_walk [of "\<lparr>sel = s\<lparr>notifications := filterFetches (notifications s)\<rparr>,
        out = written c, logs = logged c @ [LogPending (length (notifications s))],
        changed = False, existsResponse = None\<rparr>" "cid c" "skipUids (notifications s)"
        "filterFetches (notifications s)"]
    by (simp add: walked_def)
  ultimately show ?thesis by simp
qed

lemma modifyIndex_getUpdatesCallback:
  assumes "selected c = Some s"
  shows "\<exists>s1. selected (getUpdatesCallback a err updates c) = Some s1
           \<and> modifyIndex s \<le> modifyIndex s1"
proof (cases "a < length (listeners c) \<and> \<not> cleared (listeners c ! a) \<and> err = None
              \<and> state c = ''Selected'' \<and> updates \<noteq> []")
  case False
  with assms show ?thesis
    by (auto simp: getUpdatesCallback_def Let_def selected_clear split: option.splits)
next
  case True
  let ?c1 = "c\<lparr>listeners := (listeners c)[a := (listeners c ! a)\<lparr>lock := False\<rparr>]\<rparr>"
  let ?s1 = "(if modseq (last updates) > modifyIndex s
              then s\<lparr>modifyIndex := modseq (last updates)\<rparr> else s)"
  let ?s2 = "?s1\<lparr>notifications := notifications ?s1 @ updates\<rparr>"
  let ?c2 = "?c1\<lparr>selected := Some ?s2\<rparr>"
  have le: "modifyIndex s \<le> modifyIndex ?s2" by simp
  from True assms have eq: "getUpdatesCallback a err updates c
      = (if idling c then emitNotifications ?c2 else ?c2)"
    by (simp add: getUpdatesCallback_def Let_def)
  show ?thesis
  proof (cases "idling c")
    case False
    with eq le show ?thesis by simp
  next
    case True
    have "selected ?c2 = Some ?s2" by simp
    from modifyIndex_emitNotifications [OF this] obtain s3
      where "selected (emitNotifications ?c2) = Some s3" "modifyIndex ?s2 \<le> modifyIndex s3"
      by blast
    with le eq True show ?thesis by (auto intro: order_trans)
  qed
qed

lemma modifyIndex_fire:
  assumes "fire e c = Some c1" and "selected c = Some s"
  shows "\<exists>s1. selected c1 = Some s1 \<and> modifyIndex s \<le> modifyIndex s1"
proof (cases e)
  case Close with assms show ?thesis by (auto simp: selected_close)
next
  case OnClose with assms show ?thesis by (auto simp: selected_onClose)
next
  case OnEnd with assms show ?thesis by (auto simp: selected_onEnd)
next
  case (OnError x) with assms show ?thesis by (auto simp: selected_onError)
next
  case OnTimeout with assms show ?thesis by (auto dest: selected_onTimeout)
next
  case (OnCommand f) with assms show ?thesis by (auto simp: selected_onCommand)
next
  case UpdateNotificationListener
  with assms show ?thesis by (auto simp: selected_updateNotificationListener)
next
  case (Callback a m) with assms show ?thesis by (auto dest: selected_callback)
next
  case (GetUpdatesCallback a err updates)
  with assms modifyIndex_getUpdatesCallback [OF assms(2), of a err updates] show ?thesis
    by auto
next
  case EmitNotifications
  with assms modifyIndex_emitNotifications [OF assms(2)] show ?thesis by auto
next
  case (FormatResponse k u d)
  with assms show ?thesis by (auto simp: modifyIndex_formatResponse)
qed

text \<open>
  Claim C6. \<^verbatim>\<open>selected.modifyIndex\<close> never decreases: over every execution of the
  connection's entry points that starts with a selected mailbox, the mailbox stays selected
  and its modify index at the end is at least the one at the start. The two places that
  assign it do so only for a strictly larger modseq: an iteration of the flush walk yields
  the update's modseq when the update is not skipped and its modseq exceeds the current
  value, and the current value otherwise; the notifier callback, after a successful
  \<^verbatim>\<open>getUpdates\<close>, yields the last update's modseq when that exceeds the current value.
\<close>

theorem modifyIndex_monotone:
  "(run es c = Some c1 \<and> selected c = Some s \<longrightarrow>
      (\<exists>s1. selected c1 = Some s1 \<and> modifyIndex s \<le> modifyIndex s1))
   \<and> modifyIndex (sel (processUpdate sid skip w u))
       = (if uid u \<notin> skip \<and> modifyIndex (sel w) < modseq u then modseq u
          else modifyIndex (sel w))
   \<and> (a < length (listeners c2) \<and> \<not> cleared (listeners c2 ! a) \<and> state c2 = ''Selected''
        \<and> selected c2 = Some s2 \<and> updates \<noteq> [] \<and> \<not> idling c2 \<longrightarrow>
      map_option modifyIndex (selected (getUpdatesCallback a None updates c2))
        = Some (if modifyIndex s2 < modseq (last updates) then modseq (last updates)
                else modifyIndex s2))"
proof -
  have exec: "run es c = Some c1 \<Longrightarrow> selected c = Some s \<Longrightarrow>
      \<exists>s1. selected c1 = Some s1 \<and> modifyIndex s \<le> modifyIndex s1"
  proof (induction es arbitrary: c s)
    case Nil
    then show ?case by simp
  next
    case (Cons e es)
    from Cons.prems(1) obtain c2 where f: "fire e c = Some c2" and r: "run es c2 = Some c1"
      by (auto split: option.splits)
    from modifyIndex_fire [OF f Cons.prems(2)] obtain s2
      where s2: "selected c2 = Some s2" "modifyIndex s \<le> modifyIndex s2" by blast
    from Cons.IH [OF r s2(1)] obtain s1
      where "selected c1 = Some s1" "modifyIndex s2 \<le> modifyIndex s1" by blast
    with s2 show ?case by (auto intro: order_trans)
  qed
  have cb: "a < length (listeners c2) \<and> \<not> cleared (listeners c2 ! a) \<and> state c2 = ''Selected''
        \<and> selected c2 = Some s2 \<and> updates \<noteq> [] \<and> \<not> idling c2 \<longrightarrow>
      map_option modifyIndex (selected (getUpdatesCallback a None updates c2))
        = Some (if modifyIndex s2 < modseq (last updates) then modseq (last updates)
                else modifyIndex s2)"
    by (simp add: getUpdatesCallback_def Let_def)
  from exec cb show ?thesis
    by (simp add: modifyIndex_processUpdate)
qed

theorem modifyIndex_monotone_witness:
  "map_option selected
     (run [GetUpdatesCallback 0 None [exampleUpdate EXISTS 11 7, exampleUpdate EXISTS 12 5],
           EmitNotifications, Close] listeningConn)
     = Some (Some \<lparr>mailbox = ''INBOX'', uidList = [10, 11, 12], modifyIndex = 7,
                   condstoreEnabled = False, notifications = []\<rparr>)
   \<and> map_option modifyIndex (selected (getUpdatesCallback 0 None
        [exampleUpdate EXISTS 11 7, exampleUpdate EXISTS 12 5] listeningConn)) = Some 5
   \<and> modifyIndex (sel (processUpdate ''S'' {}
        \<lparr>sel = \<lparr>mailbox = ''INBOX'', uidList = [10], modifyIndex = 5,
                 condstoreEnabled = False, notifications = []\<rparr>,
          out = [], logs = [], changed = False, existsResponse = None\<rparr>
        (exampleUpdate EXISTS 11 7))) = 7"
  using modifyIndex_monotone [of
      "[GetUpdatesCallback 0 None [exampleUpdate EXISTS 11 7, exampleUpdate EXISTS 12 5],
        EmitNotifications, Close]"
      listeningConn
      "the (run [GetUpdatesCallback 0 None [exampleUpdate EXISTS 11 7, exampleUpdate EXISTS 12 5],
           EmitNotifications, Close] listeningConn)"
      "\<lparr>mailbox = ''INBOX'', uidList = [10], modifyIndex = 0,
        condstoreEnabled = False, notifications = []\<rparr>"
      "''S''" "{}"
      "\<lparr>sel = \<lparr>mailbox = ''INBOX'', uidList = [10], modifyIndex = 5,
                 condstoreEnabled = False, notifications = []\<rparr>,
          out = [], logs = [], changed = False, existsResponse = None\<rparr>"
      "exampleUpdate EXISTS 11 7" 0 listeningConn
      "\<lparr>mailbox = ''INBOX'', uidList = [10], modifyIndex = 0,
        condstoreEnabled = False, notifications = []\<rparr>"
      "[exampleUpdate EXISTS 11 7, exampleUpdate EXISTS 12 5]"]
  by (simp add: listeningConn_def exampleConn_def exampleUpdate_def getUpdatesCallback_def
      flush_eval close_def socketEnd_def)


subsection \<open>Records of a uid that is both added and removed\<close>

lemma view_eqD:
  "view w = view w' \<Longrightarrow>
   uidList (sel w) = uidList (sel w') \<and> modifyIndex (sel w) = modifyIndex (sel w')
   \<and> condstoreEnabled (sel w) = condstoreEnabled (sel w') \<and> out w = out w'
   \<and> changed w = changed w' \<and> existsResponse w = existsResponse w'"
  by (simp add: view_def)

lemma processUpdate_view:
  assumes "view w = view w'"
  shows "view (processUpdate sid skip w u) = view (processUpdate sid skip w' u)"
proof (cases "uid u \<in> skip")
  case True
  with assms show ?thesis by (simp add: processUpdate_skip)
next
  case notskip: False
  note eqs = view_eqD [OF assms]
  show ?thesis
  proof (cases "ignore u = Some sid")
    case True
    from notskip True have "processUpdate sid skip w u =
     w\<lparr>sel := (sel w)\<lparr>modifyIndex := max (modifyIndex (sel w)) (modseq u)\<rparr>,
       logs := logs w @ [LogProcessing u]\<rparr>"
     "processUpdate sid skip w' u =
     w'\<lparr>sel := (sel w')\<lparr>modifyIndex := max (modifyIndex (sel w')) (modseq u)\<rparr>,
       logs := logs w' @ [LogProcessing u]\<rparr>"
      by (rule processUpdate_ignored)+
    with eqs show ?thesis by (simp add: view_def)
  next
    case live: False
    note ul = eqs [THEN conjunct1]
    show ?thesis
    proof (cases "command u")
      case EXISTS
      from notskip live EXISTS
      have "view (processUpdate sid skip w u) = (uidList (sel w) @ [uid u], max (modifyIndex (sel w)) (modseq u),
              condstoreEnabled (sel w), out w, False, Some (existsLiteral (Suc (length (uidList (sel w))))))"
        for w
        by (simp add: processUpdate_EXISTS view_def)
      with eqs show ?thesis by simp
    next
      case EXPUNGE
      show ?thesis
      proof (cases "uid u \<in> set (uidList (sel w))")
        case True
        from notskip live EXPUNGE
        have "uid u \<in> set (uidList (sel w)) \<Longrightarrow> view (processUpdate sid skip w u) =
            (splice1 (nat (indexOf (uidList (sel w)) (uid u))) (uidList (sel w)),
             max (modifyIndex (sel w)) (modseq u), condstoreEnabled (sel w),
             out w @ [mkResponse (indexOf (uidList (sel w)) (uid u) + 1) EXPUNGE None], True,
             existsResponse w)" for w
          by (simp add: processUpdate_EXPUNGE_present view_def)
        from this [of w] this [of w'] True eqs show ?thesis by simp
      next
        case False
        from notskip live EXPUNGE
        have "uid u \<notin> set (uidList (sel w)) \<Longrightarrow> view (processUpdate sid skip w u) =
            (uidList (sel w), max (modifyIndex (sel w)) (modseq u), condstoreEnabled (sel w),
             out w, changed w, existsResponse w)" for w
          by (simp add: processUpdate_EXPUNGE_absent view_def)
        from this [of w] this [of w'] False eqs show ?thesis by simp
      qed
    next
      case FETCH
      show ?thesis
      proof (cases "uid u \<in> set (uidList (sel w))")
        case True
        from notskip live FETCH
        have "uid u \<in> set (uidList (sel w)) \<Longrightarrow> view (processUpdate sid skip w u) =
            (uidList (sel w), max (modifyIndex (sel w)) (modseq u), condstoreEnabled (sel w),
             out w @ [mkResponse (indexOf (uidList (sel w)) (uid u) + 1) FETCH
                         (Some (fetchData (condstoreEnabled (sel w)) u))], changed w,
             existsResponse w)" for w
          by (simp add: processUpdate_FETCH_present view_def)
        from this [of w] this [of w'] True eqs show ?thesis by simp
      next
        case False
        from notskip live FETCH
        have "uid u \<notin> set (uidList (sel w)) \<Longrightarrow> view (processUpdate sid skip w u) =
            (uidList (sel w), max (modifyIndex (sel w)) (modseq u), condstoreEnabled (sel w),
             out w, changed w, existsResponse w)" for w
          by (simp add: processUpdate_FETCH_absent view_def)
        from this [of w] this [of w'] False eqs show ?thesis by simp
      qed
    next
      case (OTHER x)
      from notskip live OTHER
      have "view (processUpdate sid skip w u) =
            (uidList (sel w), max (modifyIndex (sel w)) (modseq u), condstoreEnabled (sel w),
             out w, changed w, existsResponse w)" for w
        by (simp add: processUpdate_OTHER view_def)
      with eqs show ?thesis by simp
    qed
  qed
qed

lemma walk_view:
  "view w = view w' \<Longrightarrow>
   view (foldl (processUpdate sid skip) w xs) = view (foldl (processUpdate sid skip) w' xs)"
proof (induction xs arbitrary: w w')
  case Nil
  then show ?case by simp
next
  case (Cons x xs)
  have "view (processUpdate sid skip w x) = view (processUpdate sid skip w' x)"
    using Cons.prems by (rule processUpdate_view)
  then have "view (foldl (processUpdate sid skip) (processUpdate sid skip w x) xs)
             = view (foldl (processUpdate sid skip) (processUpdate sid skip w' x) xs)"
    by (rule Cons.IH)
  then show ?case by simp
qed

lemma finishFlush_view:
  assumes "view w = view w'"
  shows "view (finishFlush w) = view (finishFlush w')"
proof -
  have "view (finishFlush w) =
      (uidList (sel w), modifyIndex (sel w), condstoreEnabled (sel w),
       (if changed w then out w @ [existsLiteral (length (uidList (sel w)))]
        else streamWrite (existsResponse w) (out w)),
       changed w, (if changed w then existsResponse w else None))" for w
    by (cases "existsResponse w") (simp_all add: view_def finishFlush_def Let_def streamWrite_def)
  from this [of w] this [of w'] view_eqD [OF assms] show ?thesis by simp
qed

lemma walk_skip_filter:
  "x \<in> skip \<Longrightarrow>
   foldl (processUpdate sid skip) w xs
     = foldl (processUpdate sid skip) w (filter (\<lambda>u. uid u \<noteq> x) xs)"
  by (induction xs arbitrary: w) (simp_all add: processUpdate_skip)

lemma processUpdate_skip_cong:
  "(uid u \<in> S) = (uid u \<in> S') \<Longrightarrow> processUpdate sid S w u = processUpdate sid S' w u"
  by (simp add: processUpdate_def)

lemma walk_skip_cong:
  "\<forall>u \<in> set xs. (uid u \<in> S) = (uid u \<in> S') \<Longrightarrow>
   foldl (processUpdate sid S) w xs = foldl (processUpdate sid S') w xs"
proof (induction xs arbitrary: w)
  case Nil
  then show ?case by simp
next
  case (Cons x xs)
  from Cons.prems have x: "(uid x \<in> S) = (uid x \<in> S')"
    and xs: "\<forall>u \<in> set xs. (uid u \<in> S) = (uid u \<in> S')"
    by simp_all
  have step: "processUpdate sid S w x = processUpdate sid S' w x"
    using x by (rule processUpdate_skip_cong)
  have "foldl (processUpdate sid S) (processUpdate sid S' w x) xs
        = foldl (processUpdate sid S') (processUpdate sid S' w x) xs"
    using xs by (rule Cons.IH)
  then show ?case by (simp add: step)
qed

lemma dropFetches_filter:
  "x \<in> A \<Longrightarrow> x \<notin> F \<Longrightarrow>
   dropFetches (A - {x}) (R - {x}) F (filter (\<lambda>u. uid u \<noteq> x) us)
     = filter (\<lambda>u. uid u \<noteq> x) (dropFetches A R F us)"
  by (induction us arbitrary: F) auto

lemma addedUids_filter: "addedUids (filter (\<lambda>u. uid u \<noteq> x) q) = addedUids q - {x}"
  by (auto simp: addedUids_def)

lemma removedUids_filter: "removedUids (filter (\<lambda>u. uid u \<noteq> x) q) = removedUids q - {x}"
  by (auto simp: removedUids_def)

lemma filterFetches_filter:
  assumes "x \<in> addedUids q"
  shows "filterFetches (filter (\<lambda>u. uid u \<noteq> x) q) = filter (\<lambda>u. uid u \<noteq> x) (filterFetches q)"
proof -
  have "dropFetches (addedUids q - {x}) (removedUids q - {x}) {} (filter (\<lambda>u. uid u \<noteq> x) (rev q))
          = filter (\<lambda>u. uid u \<noteq> x) (dropFetches (addedUids q) (removedUids q) {} (rev q))"
    using assms by (intro dropFetches_filter) simp_all
  then show ?thesis
    by (simp add: filterFetches_def addedUids_filter removedUids_filter rev_filter)
qed

lemma emitNotifications_view:
  assumes "state c = ''Selected''" and "selected c = Some s"
  shows "written (emitNotifications c) = out (finishFlush (walked c s))
         \<and> map_option uidList (selected (emitNotifications c)) = Some (uidList (sel (walked c s)))
         \<and> map_option modifyIndex (selected (emitNotifications c))
             = Some (modifyIndex (sel (walked c s)))"
proof (cases "notifications s = []")
  case True
  then have "walked c s = \<lparr>sel = s\<lparr>notifications := []\<rparr>, out = written c,
        logs = logged c @ [LogPending 0], changed = False, existsResponse = None\<rparr>"
    by (simp add: walked_def filterFetches_def)
  with True assms show ?thesis
    by (simp add: emitNotifications_def finishFlush_def)
next
  case False
  from emitNotifications_walked [OF assms False] show ?thesis by simp
qed

lemma skipUids_filter: "skipUids (filter (\<lambda>u. uid u \<noteq> x) q) = skipUids q - {x}"
  by (simp add: skipUids_Int addedUids_filter removedUids_filter) blast

lemma filter_splice1:
  assumes "i < length xs" and "\<not> P (xs ! i)"
  shows "filter P (splice1 i xs) = filter P xs"
proof -
  from assms(1) have "xs = take i xs @ xs ! i # drop (Suc i) xs"
    by (rule id_take_nth_drop)
  then have "filter P xs = filter P (take i xs @ xs ! i # drop (Suc i) xs)" by simp
  also have "\<dots> = filter P (take i xs) @ filter P (drop (Suc i) xs)"
    using assms(2) by simp
  finally show ?thesis by (simp add: splice1_def)
qed

lemma processUpdate_occurrences:
  assumes "x \<in> skip"
  shows "filter (\<lambda>y. y = x) (uidList (sel (processUpdate sid skip w u)))
         = filter (\<lambda>y. y = x) (uidList (sel w))"
proof (cases "uid u \<in> skip")
  case True
  then show ?thesis by (simp add: processUpdate_skip)
next
  case notskip: False
  with assms have ne: "uid u \<noteq> x" by auto
  show ?thesis
  proof (cases "ignore u = Some sid")
    case True
    with notskip show ?thesis by (simp add: processUpdate_ignored)
  next
    case live: False
    show ?thesis
    proof (cases "uid u \<in> set (uidList (sel w))")
      case True
      from indexOf_present [OF True] indexOf_nth [OF True] ne
      have "filter (\<lambda>y. y = x) (splice1 (nat (indexOf (uidList (sel w)) (uid u))) (uidList (sel w)))
            = filter (\<lambda>y. y = x) (uidList (sel w))"
        by (intro filter_splice1) auto
      with True notskip live ne show ?thesis
        by (cases "command u")
           (simp_all add: processUpdate_EXISTS processUpdate_EXPUNGE_present
              processUpdate_FETCH_present processUpdate_OTHER)
    next
      case False
      with notskip live ne show ?thesis
        by (cases "command u")
           (simp_all add: processUpdate_EXISTS processUpdate_EXPUNGE_absent
              processUpdate_FETCH_absent processUpdate_OTHER)
    qed
  qed
qed

lemma walk_occurrences:
  assumes "x \<in> skip"
  shows "filter (\<lambda>y. y = x) (uidList (sel (foldl (processUpdate sid skip) w xs)))
         = filter (\<lambda>y. y = x) (uidList (sel w))"
proof (induction xs rule: rev_induct)
  case Nil
  then show ?case by simp
next
  case (snoc u xs)
  from processUpdate_occurrences [OF assms, of sid "foldl (processUpdate sid skip) w xs" u] snoc
  show ?case by simp
qed

text \<open>
  Claim C3. For a uid that occurs both in an EXISTS update and in an EXPUNGE update of
  the same flush, the flush emits no response and leaves the uid list as it is with
  respect to that uid: the responses written, the resulting uid list and the modify index
  are those of the same flush with every record of that uid taken out of the queue, and
  the occurrences of the uid in the uid list are unchanged (it is never appended, and
  never removed).
\<close>

theorem added_and_removed_silent:
  assumes "state c = ''Selected''" and "selected c = Some s"
    and "x \<in> addedUids (notifications s)" and "x \<in> removedUids (notifications s)"
    and "c1 = c\<lparr>selected := Some (s\<lparr>notifications := filter (\<lambda>u. uid u \<noteq> x) (notifications s)\<rparr>)\<rparr>"
  shows "written (emitNotifications c) = written (emitNotifications c1)
         \<and> map_option uidList (selected (emitNotifications c))
             = map_option uidList (selected (emitNotifications c1))
         \<and> map_option modifyIndex (selected (emitNotifications c))
             = map_option modifyIndex (selected (emitNotifications c1))
         \<and> (\<exists>s1. selected (emitNotifications c) = Some s1
                \<and> filter (\<lambda>y. y = x) (uidList s1) = filter (\<lambda>y. y = x) (uidList s))"
proof -
  let ?q = "notifications s"
  let ?P = "\<lambda>u. uid u \<noteq> x"
  let ?s1 = "s\<lparr>notifications := filter ?P ?q\<rparr>"
  let ?K = "skipUids ?q"
  let ?w0 = "\<lparr>sel = s\<lparr>notifications := filterFetches ?q\<rparr>, out = written c,
        logs = logged c @ [LogPending (length ?q)], changed = False, existsResponse = None\<rparr>"
  let ?w1 = "\<lparr>sel = ?s1\<lparr>notifications := filterFetches (filter ?P ?q)\<rparr>, out = written c1,
        logs = logged c1 @ [LogPending (length (filter ?P ?q))], changed = False,
        existsResponse = None\<rparr>"
  from assms(3,4) have xK: "x \<in> ?K" by (simp add: skipUids_Int)
  from assms(5) have c1: "state c1 = ''Selected''" "selected c1 = Some ?s1" "cid c1 = cid c"
    using assms(1) by simp_all
  have ff: "filterFetches (filter ?P ?q) = filter ?P (filterFetches ?q)"
    using assms(3) by (rule filterFetches_filter)
  have "walked c s = foldl (processUpdate (cid c) ?K) ?w0 (filter ?P (filterFetches ?q))"
    unfolding walked_def using xK by (rule walk_skip_filter)
  also have "\<dots> = foldl (processUpdate (cid c) (?K - {x})) ?w0 (filter ?P (filterFetches ?q))"
    by (rule walk_skip_cong) auto
  finally have left: "walked c s
      = foldl (processUpdate (cid c) (?K - {x})) ?w0 (filter ?P (filterFetches ?q))" .
  have right: "walked c1 ?s1
      = foldl (processUpdate (cid c) (?K - {x})) ?w1 (filter ?P (filterFetches ?q))"
    by (simp add: walked_def c1 skipUids_filter ff)
  have "view ?w0 = view ?w1"
    using assms(5) by (simp add: view_def)
  then have "view (walked c s) = view (walked c1 ?s1)"
    unfolding left right by (rule walk_view)
  then have fin: "view (finishFlush (walked c s)) = view (finishFlush (walked c1 ?s1))"
    by (rule finishFlush_view)
  note e = emitNotifications_view [OF assms(1,2)]
  note e1 = emitNotifications_view [OF c1(1,2)]
  from view_eqD [OF fin]
  have v: "out (finishFlush (walked c s)) = out (finishFlush (walked c1 ?s1))"
    "uidList (sel (walked c s)) = uidList (sel (walked c1 ?s1))"
    "modifyIndex (sel (walked c s)) = modifyIndex (sel (walked c1 ?s1))"
    by (simp_all add: sel_finishFlush)
  from e e1
  have same: "written (emitNotifications c) = written (emitNotifications c1)
         \<and> map_option uidList (selected (emitNotifications c))
             = map_option uidList (selected (emitNotifications c1))
         \<and> map_option modifyIndex (selected (emitNotifications c))
             = map_option modifyIndex (selected (emitNotifications c1))"
    by (simp only: v)
  from e obtain s2 where s2: "selected (emitNotifications c) = Some s2"
    "uidList s2 = uidList (sel (walked c s))"
    by auto
  have "filter (\<lambda>y. y = x) (uidList (sel (walked c s))) = filter (\<lambda>y. y = x) (uidList s)"
    using walk_occurrences [OF xK, of "cid c" ?w0 "filterFetches ?q"]
    by (simp add: walked_def)
  with s2 same show ?thesis by simp
qed

theorem added_and_removed_silent_witness:
  "written (emitNotifications (exampleConn [10] [exampleUpdate EXISTS 11 1, exampleUpdate EXPUNGE 11 2])) = []
   \<and> map_option uidList (selected (emitNotifications
        (exampleConn [10] [exampleUpdate EXISTS 11 1, exampleUpdate EXPUNGE 11 2]))) = Some [10]
   \<and> map_option modifyIndex (selected (emitNotifications
        (exampleConn [10] [exampleUpdate EXISTS 11 1, exampleUpdate EXPUNGE 11 2]))) = Some 0"
  using added_and_removed_silent [of
      "exampleConn [10] [exampleUpdate EXISTS 11 1, exampleUpdate EXPUNGE 11 2]"
      "\<lparr>mailbox = ''INBOX'', uidList = [10], modifyIndex = 0, condstoreEnabled = False,
        notifications = [exampleUpdate EXISTS 11 1, exampleUpdate EXPUNGE 11 2]\<rparr>"
      11 "exampleConn [10] []"]
  by (simp add: exampleConn_def exampleUpdate_def addedUids_Nil addedUids_Cons
      removedUids_Nil removedUids_Cons emitNotifications_def)

subsection \<open>FETCH coalescing\<close>

lemma dropFetches_snoc:
  "dropFetches A R F (xs @ [u])
     = dropFetches A R F xs
       @ (if command u = FETCH
             \<and> (uid u \<in> F \<or> uid u \<in> A \<or> uid u \<in> R
                \<or> (\<exists>v \<in> set xs. command v = FETCH \<and> uid v = uid u))
          then [] else [u])"
  by (induction xs arbitrary: F) auto

lemma dropFetches_lastFetches: "rev (dropFetches A R {} (rev q)) = lastFetches A R q"
  by (induction q) (simp_all add: dropFetches_snoc)

lemma filterFetches_lastFetches:
  "filterFetches q = lastFetches (addedUids q) (removedUids q) q"
  by (simp add: filterFetches_def dropFetches_lastFetches)

lemma set_lastFetches: "set (lastFetches A R q) \<subseteq> set q"
  by (induction q) auto

lemma lastFetches_distinct:
  "distinct (map uid (filter (\<lambda>u. command u = FETCH) (lastFetches A R q)))"
proof (induction q)
  case Nil
  then show ?case by simp
next
  case (Cons u q)
  show ?case
  proof (cases "command u = FETCH
      \<and> (uid u \<in> A \<or> uid u \<in> R \<or> (\<exists>v \<in> set q. command v = FETCH \<and> uid v = uid u))")
    case True
    with Cons show ?thesis by simp
  next
    case False
    with Cons set_lastFetches [of A R q] show ?thesis by auto
  qed
qed

lemma lastFetches_last:
  assumes "u \<in> set (lastFetches A R q)" and "command u = FETCH"
  shows "uid u \<notin> A \<and> uid u \<notin> R
         \<and> last (filter (\<lambda>v. command v = FETCH \<and> uid v = uid u) q) = u"
  using assms
proof (induction q)
  case Nil
  then show ?case by simp
next
  case (Cons y q)
  show ?case
  proof (cases "u \<in> set (lastFetches A R q)")
    case True
    from Cons.IH [OF True Cons.prems(2)]
    have IH: "uid u \<notin> A" "uid u \<notin> R"
      "last (filter (\<lambda>v. command v = FETCH \<and> uid v = uid u) q) = u"
      by simp_all
    from True set_lastFetches [of A R q] have "u \<in> set q" by auto
    with Cons.prems(2) have "filter (\<lambda>v. command v = FETCH \<and> uid v = uid u) q \<noteq> []"
      by (auto simp: filter_empty_conv)
    with IH show ?thesis by simp
  next
    case False
    with Cons.prems have uy: "u = y"
      and keep: "\<not> (uid y \<in> A \<or> uid y \<in> R \<or> (\<exists>v \<in> set q. command v = FETCH \<and> uid v = uid y))"
      by (auto split: if_splits)
    from keep have "filter (\<lambda>v. command v = FETCH \<and> uid v = uid y) q = []"
      by (auto simp: filter_empty_conv)
    with uy keep Cons.prems(2) show ?thesis by simp
  qed
qed

lemma walk_fetch_only:
  assumes "\<forall>u \<in> set xs. command u = FETCH"
  shows "out (foldl (processUpdate sid {}) w xs)
           = out w @ map (\<lambda>u. mkResponse (indexOf (uidList (sel w)) (uid u) + 1) FETCH
                                (Some (fetchData (condstoreEnabled (sel w)) u)))
                       (filter (\<lambda>u. ignore u \<noteq> Some sid \<and> uid u \<in> set (uidList (sel w))) xs)
         \<and> uidList (sel (foldl (processUpdate sid {}) w xs)) = uidList (sel w)
         \<and> condstoreEnabled (sel (foldl (processUpdate sid {}) w xs)) = condstoreEnabled (sel w)
         \<and> changed (foldl (processUpdate sid {}) w xs) = changed w
         \<and> existsResponse (foldl (processUpdate sid {}) w xs) = existsResponse w"
  using assms
proof (induction xs rule: rev_induct)
  case Nil
  then show ?case by simp
next
  case (snoc x xs)
  let ?w = "foldl (processUpdate sid {}) w xs"
  from snoc.prems have xs: "\<forall>u \<in> set xs. command u = FETCH" and x: "command x = FETCH"
    by simp_all
  note IH = snoc.IH [OF xs]
  show ?case
  proof (cases "ignore x = Some sid")
    case True
    then have "processUpdate sid {} ?w x =
      ?w\<lparr>sel := (sel ?w)\<lparr>modifyIndex := max (modifyIndex (sel ?w)) (modseq x)\<rparr>,
         logs := logs ?w @ [LogProcessing x]\<rparr>"
      by (simp add: processUpdate_ignored)
    with IH True show ?thesis by simp
  next
    case live: False
    show ?thesis
    proof (cases "uid x \<in> set (uidList (sel w))")
      case True
      with IH have "uid x \<in> set (uidList (sel ?w))" by simp
      with live x have "processUpdate sid {} ?w x =
        ?w\<lparr>sel := (sel ?w)\<lparr>modifyIndex := max (modifyIndex (sel ?w)) (modseq x)\<rparr>,
           logs := logs ?w @ [LogProcessing x, LogUIDS (length (uidList (sel ?w)))],
           out := out ?w @ [mkResponse (indexOf (uidList (sel ?w)) (uid x) + 1) FETCH
                         (Some (fetchData (condstoreEnabled (sel ?w)) x))]\<rparr>"
        by (simp add: processUpdate_FETCH_present)
      with IH live True show ?thesis by simp
    next
      case False
      with IH have "uid x \<notin> set (uidList (sel ?w))" by simp
      with live x have "processUpdate sid {} ?w x =
        ?w\<lparr>sel := (sel ?w)\<lparr>modifyIndex := max (modifyIndex (sel ?w)) (modseq x)\<rparr>,
           logs := logs ?w @ [LogProcessing x, LogUIDS (length (uidList (sel ?w)))]\<rparr>"
        by (simp add: processUpdate_FETCH_absent)
      with IH live False show ?thesis by simp
    qed
  qed
qed

lemma isFetchResponse_simps:
  "isFetchResponse (mkResponse n FETCH d)"
  "\<not> isFetchResponse (mkResponse n EXPUNGE d)"
  "\<not> isFetchResponse (existsLiteral k)"
  by (simp_all add: isFetchResponse_def mkResponse_def existsLiteral_def)

lemma processUpdate_fetch_step:
  "condstoreEnabled (sel (processUpdate sid skip w u)) = condstoreEnabled (sel w)
   \<and> ((\<forall>r. existsResponse w = Some r \<longrightarrow> \<not> isFetchResponse r) \<longrightarrow>
        (\<forall>r. existsResponse (processUpdate sid skip w u) = Some r \<longrightarrow> \<not> isFetchResponse r))
   \<and> ((command u = FETCH \<and> ignore u \<noteq> Some sid \<and> uid u \<notin> skip
          \<and> out (processUpdate sid skip w u)
              = out w @ [mkResponse (indexOf (uidList (sel w)) (uid u) + 1) FETCH
                           (Some (fetchData (condstoreEnabled (sel w)) u))])
        \<or> (\<exists>rs. out (processUpdate sid skip w u) = out w @ rs
                 \<and> filter isFetchResponse rs = []))"
proof (cases "uid u \<in> skip")
  case True
  then show ?thesis by (simp add: processUpdate_skip)
next
  case notskip: False
  show ?thesis
  proof (cases "ignore u = Some sid")
    case True
    with notskip show ?thesis by (simp add: processUpdate_ignored)
  next
    case live: False
    show ?thesis
    proof (cases "uid u \<in> set (uidList (sel w))")
      case True
      with notskip live show ?thesis
        by (cases "command u")
           (simp_all add: processUpdate_EXISTS processUpdate_EXPUNGE_present
              processUpdate_FETCH_present processUpdate_OTHER isFetchResponse_simps)
    next
      case False
      with notskip live show ?thesis
        by (cases "command u")
           (simp_all add: processUpdate_EXISTS processUpdate_EXPUNGE_absent
              processUpdate_FETCH_absent processUpdate_OTHER isFetchResponse_simps)
    qed
  qed
qed

lemma fetch_response_shape:
  "tag (mkResponse n FETCH (Some d)) = ''*''
   \<and> attributes (mkResponse n FETCH (Some d)) = [Node ''atom'' ''FETCH'', Lst (notificationAttrs d)]"
  by (simp add: mkResponse_def)

lemma walk_fetch_responses:
  assumes "\<forall>r. existsResponse w = Some r \<longrightarrow> \<not> isFetchResponse r"
  shows "\<exists>new es.
           out (foldl (processUpdate sid skip) w xs) = out w @ new
           \<and> subseq es (filter (\<lambda>u. command u = FETCH \<and> ignore u \<noteq> Some sid \<and> uid u \<notin> skip) xs)
           \<and> list_all2 (\<lambda>r u. tag r = ''*''
                  \<and> attributes r = [Node ''atom'' ''FETCH'',
                        Lst (notificationAttrs (fetchData (condstoreEnabled (sel w)) u))])
                (filter isFetchResponse new) es
           \<and> (\<forall>r. existsResponse (foldl (processUpdate sid skip) w xs) = Some r
                  \<longrightarrow> \<not> isFetchResponse r)"
  using assms
proof (induction xs arbitrary: w)
  case Nil
  have "subseq [] ([] :: update list)" by simp
  with Nil show ?case by auto
next
  case (Cons u us)
  let ?w1 = "processUpdate sid skip w u"
  let ?F = "\<lambda>u. command u = FETCH \<and> ignore u \<noteq> Some sid \<and> uid u \<notin> skip"
  let ?R = "\<lambda>cs r u. tag r = ''*''
                  \<and> attributes r = [Node ''atom'' ''FETCH'', Lst (notificationAttrs (fetchData cs u))]"
  note step = processUpdate_fetch_step [of sid skip w u]
  from step have cs: "condstoreEnabled (sel ?w1) = condstoreEnabled (sel w)" by blast
  from step Cons.prems have inv1: "\<forall>r. existsResponse ?w1 = Some r \<longrightarrow> \<not> isFetchResponse r"
    by blast
  from Cons.IH [OF inv1] obtain new es where
    IH: "out (foldl (processUpdate sid skip) ?w1 us) = out ?w1 @ new"
      "subseq es (filter ?F us)"
      "list_all2 (?R (condstoreEnabled (sel w))) (filter isFetchResponse new) es"
      "\<forall>r. existsResponse (foldl (processUpdate sid skip) ?w1 us) = Some r \<longrightarrow> \<not> isFetchResponse r"
    unfolding cs by blast
  from step consider
    (fetch) "?F u" "out ?w1 = out w @ [mkResponse (indexOf (uidList (sel w)) (uid u) + 1) FETCH
                           (Some (fetchData (condstoreEnabled (sel w)) u))]"
    | (other) rs where "out ?w1 = out w @ rs" "filter isFetchResponse rs = []"
    by blast
  then show ?case
  proof cases
    case fetch
    let ?r = "mkResponse (indexOf (uidList (sel w)) (uid u) + 1) FETCH
                (Some (fetchData (condstoreEnabled (sel w)) u))"
    have out: "out (foldl (processUpdate sid skip) w (u # us)) = out w @ (?r # new)"
      using IH(1) fetch(2) by simp
    have sub: "subseq (u # es) (filter ?F (u # us))"
      using IH(2) fetch(1) by simp
    have all: "list_all2 (?R (condstoreEnabled (sel w))) (filter isFetchResponse (?r # new)) (u # es)"
      using IH(3) by (simp add: isFetchResponse_simps fetch_response_shape)
    from out sub all IH(4) show ?thesis
      by (intro exI [of _ "?r # new"] exI [of _ "u # es"]) simp
  next
    case other
    have out: "out (foldl (processUpdate sid skip) w (u # us)) = out w @ (rs @ new)"
      using IH(1) other(1) by simp
    have sub: "subseq es (filter ?F (u # us))"
      using IH(2) by (cases "?F u") (auto intro: list_emb_Cons)
    have all: "list_all2 (?R (condstoreEnabled (sel w))) (filter isFetchResponse (rs @ new)) es"
      using IH(3) other(2) by simp
    from out sub all IH(4) show ?thesis
      by (intro exI [of _ "rs @ new"] exI [of _ es]) simp
  qed
qed

lemma finishFlush_no_fetch:
  assumes "\<forall>r. existsResponse w = Some r \<longrightarrow> \<not> isFetchResponse r"
  shows "\<exists>rs. out (finishFlush w) = out w @ rs \<and> filter isFetchResponse rs = []"
proof (cases "changed w")
  case True
  then have "out (finishFlush w) = out w @ [existsLiteral (length (uidList (sel w)))]"
    by (rule finishFlush_changed)
  then show ?thesis by (simp add: isFetchResponse_simps)
next
  case False
  show ?thesis
  proof (cases "existsResponse w")
    case None
    with False have "finishFlush w = w" by (simp add: finishFlush_idle)
    then show ?thesis by simp
  next
    case (Some r)
    with False have "out (finishFlush w) = out w @ [r]" by (simp add: finishFlush_deferred)
    with Some assms show ?thesis by simp
  qed
qed

lemma subseq_subset: "subseq xs ys \<Longrightarrow> set xs \<subseteq> set ys"
  by (induction rule: list_emb.induct) auto

lemma subseq_distinct_map:
  assumes "subseq es ys" and "distinct (map f ys)"
  shows "distinct (map f es)"
proof -
  from assms(1) have "subseq (map f es) (map f ys)" by (rule subseq_map)
  then have "map f es \<in> set (subseqs (map f ys))" by simp
  then show ?thesis using assms(2) by (rule subseqs_distinctD)
qed

lemma flush_fetch_responses:
  assumes "state c = ''Selected''" and "selected c = Some s"
  shows "\<exists>new es.
           written (emitNotifications c) = written c @ new
           \<and> list_all2 (\<lambda>r u. tag r = ''*''
                  \<and> attributes r = [Node ''atom'' ''FETCH'',
                        Lst (notificationAttrs (fetchData (condstoreEnabled s) u))])
                (filter isFetchResponse new) es
           \<and> subseq es (filter (\<lambda>u. command u = FETCH) (filterFetches (notifications s)))
           \<and> distinct (map uid es)
           \<and> (\<forall>u \<in> set es.
                  ignore u \<noteq> Some (cid c)
                  \<and> uid u \<notin> addedUids (notifications s) \<and> uid u \<notin> removedUids (notifications s)
                  \<and> last (filter (\<lambda>v. command v = FETCH \<and> uid v = uid u) (notifications s)) = u)"
proof -
  let ?q = "notifications s"
  let ?q1 = "filterFetches ?q"
  let ?sid = "cid c"
  let ?K = "skipUids ?q"
  let ?F = "\<lambda>u. command u = FETCH \<and> ignore u \<noteq> Some ?sid \<and> uid u \<notin> ?K"
  let ?w0 = "\<lparr>sel = s\<lparr>notifications := ?q1\<rparr>, out = written c,
        logs = logged c @ [LogPending (length ?q)], changed = False, existsResponse = None\<rparr>"
  have inv0: "\<forall>r. existsResponse ?w0 = Some r \<longrightarrow> \<not> isFetchResponse r" by simp
  from walk_fetch_responses [OF inv0, of ?sid ?K ?q1] obtain new es where
    walk: "out (walked c s) = written c @ new"
      "subseq es (filter ?F ?q1)"
      "list_all2 (\<lambda>r u. tag r = ''*''
                  \<and> attributes r = [Node ''atom'' ''FETCH'',
                        Lst (notificationAttrs (fetchData (condstoreEnabled s) u))])
                (filter isFetchResponse new) es"
      "\<forall>r. existsResponse (walked c s) = Some r \<longrightarrow> \<not> isFetchResponse r"
    unfolding walked_def by auto
  from finishFlush_no_fetch [OF walk(4)] obtain rs where
    fin: "out (finishFlush (walked c s)) = out (walked c s) @ rs" "filter isFetchResponse rs = []"
    by blast
  from emitNotifications_view [OF assms] fin(1) walk(1)
  have out: "written (emitNotifications c) = written c @ (new @ rs)" by simp
  from fin(2) walk(3)
  have all: "list_all2 (\<lambda>r u. tag r = ''*''
                  \<and> attributes r = [Node ''atom'' ''FETCH'',
                        Lst (notificationAttrs (fetchData (condstoreEnabled s) u))])
                (filter isFetchResponse (new @ rs)) es"
    by simp
  have "filter ?F ?q1 = filter (\<lambda>u. ignore u \<noteq> Some ?sid \<and> uid u \<notin> ?K)
                           (filter (\<lambda>u. command u = FETCH) ?q1)"
    by (simp add: conj_commute conj_left_commute)
  then have "subseq (filter ?F ?q1) (filter (\<lambda>u. command u = FETCH) ?q1)"
    by (simp only: subseq_filter_left)
  with walk(2) have sub: "subseq es (filter (\<lambda>u. command u = FETCH) ?q1)"
    by (rule subseq_order.order_trans)
  have "distinct (map uid (filter (\<lambda>u. command u = FETCH) ?q1))"
    unfolding filterFetches_lastFetches by (rule lastFetches_distinct)
  with sub have dist: "distinct (map uid es)" by (rule subseq_distinct_map)
  have each: "ignore u \<noteq> Some ?sid
        \<and> uid u \<notin> addedUids ?q \<and> uid u \<notin> removedUids ?q
        \<and> last (filter (\<lambda>v. command v = FETCH \<and> uid v = uid u) ?q) = u"
    if "u \<in> set es" for u
  proof -
    from that subseq_subset [OF walk(2)] have u: "u \<in> set ?q1" "command u = FETCH"
      "ignore u \<noteq> Some ?sid"
      by auto
    from u(1) have "u \<in> set (lastFetches (addedUids ?q) (removedUids ?q) ?q)"
      by (simp add: filterFetches_lastFetches)
    from lastFetches_last [OF this u(2)] u(3) show ?thesis by simp
  qed
  from out all sub dist each show ?thesis by blast
qed

text \<open>
  Claim C4. The second loop keeps exactly what the specification says: a FETCH record
  stays only if its uid has no EXISTS and no EXPUNGE record in the queue and no later
  FETCH record has the same uid. So the surviving FETCH records have pairwise distinct
  uids, each is the last FETCH record of its uid in arrival order, and none belongs to an
  added or removed uid. An update whose \<^verbatim>\<open>ignore\<close> field is the session id writes
  nothing and leaves the uid list alone. For a queue of FETCH records the flush writes
  exactly one FETCH response per surviving record that is not ignored and whose uid is in
  the uid list, at that uid's sequence number, in arrival order. In every flush, whatever
  the queue holds, the FETCH responses written match, one to one and in order, a list of
  FETCH records taken from the surviving ones: records with pairwise distinct uids (at
  most one FETCH response per uid), none of them ignored for this session, none of an
  added or removed uid, each the last FETCH record of its uid in the queue and each
  giving its response its flags and modseq.
\<close>

theorem fetch_coalescing:
  "filterFetches q = lastFetches (addedUids q) (removedUids q) q
   \<and> distinct (map uid (filter (\<lambda>u. command u = FETCH) (filterFetches q)))
   \<and> (\<forall>u \<in> set (filterFetches q). command u = FETCH \<longrightarrow>
         uid u \<notin> addedUids q \<and> uid u \<notin> removedUids q
         \<and> last (filter (\<lambda>v. command v = FETCH \<and> uid v = uid u) q) = u)
   \<and> (ignore u = Some sid \<longrightarrow>
         out (processUpdate sid skip w u) = out w
         \<and> uidList (sel (processUpdate sid skip w u)) = uidList (sel w))
   \<and> (state c = ''Selected'' \<and> selected c = Some s
        \<and> (\<forall>v \<in> set (notifications s). command v = FETCH) \<longrightarrow>
       written (emitNotifications c)
         = written c
           @ map (\<lambda>v. mkResponse (indexOf (uidList s) (uid v) + 1) FETCH
                         (Some (fetchData (condstoreEnabled s) v)))
               (filter (\<lambda>v. ignore v \<noteq> Some (cid c) \<and> uid v \<in> set (uidList s))
                  (lastFetches {} {} (notifications s)))
       \<and> map_option uidList (selected (emitNotifications c)) = Some (uidList s))
   \<and> (state c = ''Selected'' \<and> selected c = Some s \<longrightarrow>
       (\<exists>new es.
           written (emitNotifications c) = written c @ new
           \<and> list_all2 (\<lambda>r u. tag r = ''*''
                  \<and> attributes r = [Node ''atom'' ''FETCH'',
                        Lst (notificationAttrs (fetchData (condstoreEnabled s) u))])
                (filter isFetchResponse new) es
           \<and> subseq es (filter (\<lambda>u. command u = FETCH) (filterFetches (notifications s)))
           \<and> distinct (map uid es)
           \<and> (\<forall>u \<in> set es.
                  ignore u \<noteq> Some (cid c)
                  \<and> uid u \<notin> addedUids (notifications s) \<and> uid u \<notin> removedUids (notifications s)
                  \<and> last (filter (\<lambda>v. command v = FETCH \<and> uid v = uid u) (notifications s)) = u)))"
proof -
  have refine: "filterFetches q = lastFetches (addedUids q) (removedUids q) q"
    by (rule filterFetches_lastFetches)
  have dist: "distinct (map uid (filter (\<lambda>u. command u = FETCH) (filterFetches q)))"
    unfolding refine by (rule lastFetches_distinct)
  have lst: "\<forall>u \<in> set (filterFetches q). command u = FETCH \<longrightarrow>
         uid u \<notin> addedUids q \<and> uid u \<notin> removedUids q
         \<and> last (filter (\<lambda>v. command v = FETCH \<and> uid v = uid u) q) = u"
    unfolding refine using lastFetches_last by blast
  have ign: "ignore u = Some sid \<longrightarrow>
         out (processUpdate sid skip w u) = out w
         \<and> uidList (sel (processUpdate sid skip w u)) = uidList (sel w)"
    using processUpdate_ignored_view [of u sid skip w] by simp
  have whole: "written (emitNotifications c)
         = written c
           @ map (\<lambda>v. mkResponse (indexOf (uidList s) (uid v) + 1) FETCH
                         (Some (fetchData (condstoreEnabled s) v)))
               (filter (\<lambda>v. ignore v \<noteq> Some (cid c) \<and> uid v \<in> set (uidList s))
                  (lastFetches {} {} (notifications s)))
       \<and> map_option uidList (selected (emitNotifications c)) = Some (uidList s)"
    if sel: "state c = ''Selected''" "selected c = Some s"
      and q: "\<forall>v \<in> set (notifications s). command v = FETCH"
  proof -
    let ?q = "notifications s"
    from q have "filter (\<lambda>u. command u = EXISTS) ?q = []"
      "filter (\<lambda>u. command u = EXPUNGE) ?q = []"
      by (auto simp: filter_empty_conv)
    then have sets: "addedUids ?q = {}" "removedUids ?q = {}" "skipUids ?q = {}"
      by (simp_all add: addedUids_def removedUids_def skipUids_def)
    have q1: "filterFetches ?q = lastFetches {} {} ?q"
      by (simp add: filterFetches_lastFetches sets)
    from q set_lastFetches [of "{}" "{}" ?q]
    have all: "\<forall>v \<in> set (lastFetches {} {} ?q). command v = FETCH" by auto
    let ?w0 = "\<lparr>sel = s\<lparr>notifications := lastFetches {} {} ?q\<rparr>, out = written c,
        logs = logged c @ [LogPending (length ?q)], changed = False, existsResponse = None\<rparr>"
    have w: "walked c s = foldl (processUpdate (cid c) {}) ?w0 (lastFetches {} {} ?q)"
      by (simp add: walked_def sets q1)
    from walk_fetch_only [OF all, of "cid c" ?w0] w
    have walk: "out (walked c s) = written c
           @ map (\<lambda>v. mkResponse (indexOf (uidList s) (uid v) + 1) FETCH
                         (Some (fetchData (condstoreEnabled s) v)))
               (filter (\<lambda>v. ignore v \<noteq> Some (cid c) \<and> uid v \<in> set (uidList s))
                  (lastFetches {} {} ?q))"
      "uidList (sel (walked c s)) = uidList s"
      "\<not> changed (walked c s)" "existsResponse (walked c s) = None"
      by simp_all
    from walk(3,4) have "finishFlush (walked c s) = walked c s" by (rule finishFlush_idle)
    with emitNotifications_view [OF sel] walk show ?thesis by simp
  qed
  have every: "state c = ''Selected'' \<and> selected c = Some s \<longrightarrow>
       (\<exists>new es.
           written (emitNotifications c) = written c @ new
           \<and> list_all2 (\<lambda>r u. tag r = ''*''
                  \<and> attributes r = [Node ''atom'' ''FETCH'',
                        Lst (notificationAttrs (fetchData (condstoreEnabled s) u))])
                (filter isFetchResponse new) es
           \<and> subseq es (filter (\<lambda>u. command u = FETCH) (filterFetches (notifications s)))
           \<and> distinct (map uid es)
           \<and> (\<forall>u \<in> set es.
                  ignore u \<noteq> Some (cid c)
                  \<and> uid u \<notin> addedUids (notifications s) \<and> uid u \<notin> removedUids (notifications s)
                  \<and> last (filter (\<lambda>v. command v = FETCH \<and> uid v = uid u) (notifications s)) = u))"
    using flush_fetch_responses [of c s] by blast
  from whole have whole': "state c = ''Selected'' \<and> selected c = Some s
        \<and> (\<forall>v \<in> set (notifications s). command v = FETCH) \<longrightarrow>
       written (emitNotifications c)
         = written c
           @ map (\<lambda>v. mkResponse (indexOf (uidList s) (uid v) + 1) FETCH
                         (Some (fetchData (condstoreEnabled s) v)))
               (filter (\<lambda>v. ignore v \<noteq> Some (cid c) \<and> uid v \<in> set (uidList s))
                  (lastFetches {} {} (notifications s)))
       \<and> map_option uidList (selected (emitNotifications c)) = Some (uidList s)"
    by blast
  show ?thesis
    by (intro conjI refine dist lst ign whole' every)
qed


theorem fetch_coalescing_witness:
  "(filterFetches [exampleFetch 10 1 [CHR 0x5C # ''Seen''] None,
                  exampleFetch 10 2 [CHR 0x5C # ''Seen'', CHR 0x5C # ''Flagged''] (Some ''S''),
                  exampleFetch 11 3 [CHR 0x5C # ''Answered''] None]
     = [exampleFetch 10 2 [CHR 0x5C # ''Seen'', CHR 0x5C # ''Flagged''] (Some ''S''),
        exampleFetch 11 3 [CHR 0x5C # ''Answered''] None]
   \<and> written (emitNotifications (exampleConn [10, 11]
        [exampleFetch 10 1 [CHR 0x5C # ''Seen''] None,
         exampleFetch 10 2 [CHR 0x5C # ''Seen'', CHR 0x5C # ''Flagged''] (Some ''S''),
         exampleFetch 11 3 [CHR 0x5C # ''Answered''] None]))
     = [\<lparr>tag = ''*'', rcommand = ''2'',
         attributes = [Node ''atom'' ''FETCH'',
                       Lst [Node ''ATOM'' ''FLAGS'', Lst [Node ''ATOM'' (CHR 0x5C # ''Answered'')]]]\<rparr>]
   \<and> map_option uidList (selected (emitNotifications (exampleConn [10, 11]
        [exampleFetch 10 1 [CHR 0x5C # ''Seen''] None,
         exampleFetch 10 2 [CHR 0x5C # ''Seen'', CHR 0x5C # ''Flagged''] (Some ''S''),
         exampleFetch 11 3 [CHR 0x5C # ''Answered''] None]))) = Some [10, 11])
   \<and> written (emitNotifications (exampleConn [10, 11]
        [exampleUpdate EXPUNGE 11 1,
         exampleFetch 10 2 [CHR 0x5C # ''Seen''] None,
         exampleFetch 10 3 [CHR 0x5C # ''Seen'', CHR 0x5C # ''Flagged''] None]))
     = [\<lparr>tag = ''*'', rcommand = ''2'', attributes = [Node ''atom'' ''EXPUNGE'']\<rparr>,
        \<lparr>tag = ''*'', rcommand = ''1'',
         attributes = [Node ''atom'' ''FETCH'',
                       Lst [Node ''ATOM'' ''FLAGS'',
                            Lst [Node ''ATOM'' (CHR 0x5C # ''Seen''),
                                 Node ''ATOM'' (CHR 0x5C # ''Flagged'')]]]\<rparr>,
        \<lparr>tag = ''*'', rcommand = ''1'', attributes = [Node ''atom'' ''EXISTS'']\<rparr>]"
proof -
  note fetch_only = fetch_coalescing [of
      "[exampleFetch 10 1 [CHR 0x5C # ''Seen''] None,
        exampleFetch 10 2 [CHR 0x5C # ''Seen'', CHR 0x5C # ''Flagged''] (Some ''S''),
        exampleFetch 11 3 [CHR 0x5C # ''Answered''] None]"
      "exampleFetch 10 2 [CHR 0x5C # ''Seen'', CHR 0x5C # ''Flagged''] (Some ''S'')" "''S''"
      "{}" "\<lparr>sel = \<lparr>mailbox = ''INBOX'', uidList = [10, 11], modifyIndex = 0,
                 condstoreEnabled = False, notifications = []\<rparr>,
            out = [], logs = [], changed = False, existsResponse = None\<rparr>"
      "exampleConn [10, 11]
        [exampleFetch 10 1 [CHR 0x5C # ''Seen''] None,
         exampleFetch 10 2 [CHR 0x5C # ''Seen'', CHR 0x5C # ''Flagged''] (Some ''S''),
         exampleFetch 11 3 [CHR 0x5C # ''Answered''] None]"
      "\<lparr>mailbox = ''INBOX'', uidList = [10, 11], modifyIndex = 0, condstoreEnabled = False,
        notifications = [exampleFetch 10 1 [CHR 0x5C # ''Seen''] None,
         exampleFetch 10 2 [CHR 0x5C # ''Seen'', CHR 0x5C # ''Flagged''] (Some ''S''),
         exampleFetch 11 3 [CHR 0x5C # ''Answered''] None]\<rparr>"]
  have first: "filterFetches [exampleFetch 10 1 [CHR 0x5C # ''Seen''] None,
                  exampleFetch 10 2 [CHR 0x5C # ''Seen'', CHR 0x5C # ''Flagged''] (Some ''S''),
                  exampleFetch 11 3 [CHR 0x5C # ''Answered''] None]
     = [exampleFetch 10 2 [CHR 0x5C # ''Seen'', CHR 0x5C # ''Flagged''] (Some ''S''),
        exampleFetch 11 3 [CHR 0x5C # ''Answered''] None]
   \<and> written (emitNotifications (exampleConn [10, 11]
        [exampleFetch 10 1 [CHR 0x5C # ''Seen''] None,
         exampleFetch 10 2 [CHR 0x5C # ''Seen'', CHR 0x5C # ''Flagged''] (Some ''S''),
         exampleFetch 11 3 [CHR 0x5C # ''Answered''] None]))
     = [\<lparr>tag = ''*'', rcommand = ''2'',
         attributes = [Node ''atom'' ''FETCH'',
                       Lst [Node ''ATOM'' ''FLAGS'', Lst [Node ''ATOM'' (CHR 0x5C # ''Answered'')]]]\<rparr>]
   \<and> map_option uidList (selected (emitNotifications (exampleConn [10, 11]
        [exampleFetch 10 1 [CHR 0x5C # ''Seen''] None,
         exampleFetch 10 2 [CHR 0x5C # ''Seen'', CHR 0x5C # ''Flagged''] (Some ''S''),
         exampleFetch 11 3 [CHR 0x5C # ''Answered''] None]))) = Some [10, 11]"
    using fetch_only [THEN conjunct1]
      fetch_only [THEN conjunct2, THEN conjunct2, THEN conjunct2, THEN conjunct2, THEN conjunct1]
    by (simp add: exampleConn_def exampleFetch_def addedUids_Nil addedUids_Cons removedUids_Nil
        removedUids_Cons mkResponse_def fetchData_def notificationAttrs_def toString_def
        decimal.simps digit_def)
  have second: "written (emitNotifications (exampleConn [10, 11]
        [exampleUpdate EXPUNGE 11 1,
         exampleFetch 10 2 [CHR 0x5C # ''Seen''] None,
         exampleFetch 10 3 [CHR 0x5C # ''Seen'', CHR 0x5C # ''Flagged''] None]))
     = [\<lparr>tag = ''*'', rcommand = ''2'', attributes = [Node ''atom'' ''EXPUNGE'']\<rparr>,
        \<lparr>tag = ''*'', rcommand = ''1'',
         attributes = [Node ''atom'' ''FETCH'',
                       Lst [Node ''ATOM'' ''FLAGS'',
                            Lst [Node ''ATOM'' (CHR 0x5C # ''Seen''),
                                 Node ''ATOM'' (CHR 0x5C # ''Flagged'')]]]\<rparr>,
        \<lparr>tag = ''*'', rcommand = ''1'', attributes = [Node ''atom'' ''EXISTS'']\<rparr>]"
    by (simp add: exampleConn_def exampleFetch_def exampleUpdate_def flush_eval toString_def
        decimal.simps digit_def)
  from first second show ?thesis by (rule conjI)
qed

end
